theory Spec2Isabelle
  imports Main "HOL-Library.Word" "HOL-Library.Signed_Division"
begin

unbundle bit_operations_syntax

section \<open>Machine integers of the Go source\<close>

text \<open>
  Go's fixed-width integers are words: \<open>+\<close>, \<open>-\<close> and \<open>*\<close> wrap around, a conversion
  between widths (\<open>uint32(x)\<close>, \<open>int64(x)\<close> of an unsigned value) is \<open>ucast\<close>, \<open>>>\<close> on a
  signed value is the arithmetic shift \<open>signed_drop_bit\<close>, on an unsigned value the logical
  shift \<open>drop_bit\<close>. A signed word is read with \<open>sint\<close>, an unsigned one with \<open>uint\<close>.
\<close>

type_synonym int64 = "64 word"
type_synonym uint64 = "64 word"
type_synonym uint32 = "32 word"
type_synonym uint16 = "16 word"

text \<open>Go's \<open>/\<close> on \<open>int64\<close>: the quotient truncated towards zero.\<close>

definition int64_quo :: "int64 \<Rightarrow> int64 \<Rightarrow> int64" where
  "int64_quo a b = word_of_int (sint a sdiv sint b)"

text \<open>A Go \<open>error\<close> is represented by its message; \<open>nil\<close> is \<open>None\<close>.\<close>

type_synonym error = string

section \<open>common/writeThoughFile\_freebsd.go: epoch conversion\<close>

definition TICKS_FROM_WINDOWS_EPOCH_TO_UNIX_EPOCH :: int64 where
  "TICKS_FROM_WINDOWS_EPOCH_TO_UNIX_EPOCH = 116444736000000000"

record Filetime =
  LowDateTime :: uint32
  HighDateTime :: uint32

record ByHandleFileInformation =
  FileAttributes :: uint32
  CreationTime :: Filetime
  LastAccessTime :: Filetime
  LastWriteTime :: Filetime
  VolumeSerialNumber :: uint32
  FileSizeHigh :: uint32
  FileSizeLow :: uint32
  NumberOfLinks :: uint32
  FileIndexHigh :: uint32
  FileIndexLow :: uint32

text \<open>The zero values of the two structs (\<open>Filetime{}\<close>, \<open>ByHandleFileInformation{}\<close>).\<close>

definition Filetime_zero :: Filetime where
  "Filetime_zero = \<lparr>LowDateTime = 0, HighDateTime = 0\<rparr>"

definition ByHandleFileInformation_zero :: ByHandleFileInformation where
  "ByHandleFileInformation_zero =
     \<lparr>FileAttributes = 0, CreationTime = Filetime_zero, LastAccessTime = Filetime_zero,
      LastWriteTime = Filetime_zero, VolumeSerialNumber = 0, FileSizeHigh = 0,
      FileSizeLow = 0, NumberOfLinks = 0, FileIndexHigh = 0, FileIndexLow = 0\<rparr>"

definition Nanoseconds :: "Filetime \<Rightarrow> int64" where
  "Nanoseconds ft =
     (let nsec = push_bit 32 (ucast (HighDateTime ft)) + ucast (LowDateTime ft);
          nsec = nsec - TICKS_FROM_WINDOWS_EPOCH_TO_UNIX_EPOCH
      in nsec * 100)"

definition NsecToFiletime :: "int64 \<Rightarrow> Filetime" where
  "NsecToFiletime nsec =
     (let nsec = int64_quo nsec 100;
          nsec = nsec + TICKS_FROM_WINDOWS_EPOCH_TO_UNIX_EPOCH
      in \<lparr>LowDateTime = ucast (nsec AND 0xFFFFFFFF),
          HighDateTime = ucast (signed_drop_bit 32 nsec)\<rparr>)"

definition WindowsTicksToUnixNano :: "int64 \<Rightarrow> int64" where
  "WindowsTicksToUnixNano ticks =
     (let ticks = ticks - TICKS_FROM_WINDOWS_EPOCH_TO_UNIX_EPOCH in ticks * 100)"

definition UnixNanoToWindowsTicks :: "int64 \<Rightarrow> int64" where
  "UnixNanoToWindowsTicks nsec =
     (let nsec = int64_quo nsec 100;
          nsec = nsec + TICKS_FROM_WINDOWS_EPOCH_TO_UNIX_EPOCH
      in nsec)"

text \<open>\<open>unix.Timespec\<close> on the 64-bit FreeBSD targets: two \<open>int64\<close> fields.\<close>

record Timespec =
  Sec :: int64
  Nsec :: int64

definition TimespecToFiletime :: "Timespec \<Rightarrow> Filetime" where
  "TimespecToFiletime ts = NsecToFiletime (Sec ts * 1000000000 + Nsec ts)"

section \<open>common/writeThoughFile\_freebsd.go: file information\<close>

text \<open>
  The fields of \<open>unix.Stat_t\<close> that \<open>GetFileInformation\<close> reads, with the widths they have
  on FreeBSD (\<open>Mode\<close> is \<open>uint16\<close>; \<open>Ino\<close> and \<open>Nlink\<close> are \<open>uint64\<close>; \<open>Size\<close> is
  \<open>int64\<close>), and the two file-type constants of package \<open>syscall\<close>.
\<close>

record Stat_t =
  Ino :: uint64
  Nlink :: uint64
  Mode :: uint16
  Atim :: Timespec
  Mtim :: Timespec
  Size :: int64

definition S_IFMT :: uint16 where
  "S_IFMT = 0xf000"

definition S_IFDIR :: uint16 where
  "S_IFDIR = 0x4000"

text \<open>
  \<open>unix.Stat(path, &st)\<close> is the operating system's answer for a path: either the error
  (\<open>Inl\<close>, its message as \<open>%v\<close> prints it) or the filled status record. The function returns
  the pair \<open>(ByHandleFileInformation, error)\<close> as Go does.
\<close>

definition GetFileInformation ::
  "(string \<Rightarrow> error + Stat_t) \<Rightarrow> string \<Rightarrow> bool \<Rightarrow> ByHandleFileInformation \<times> error option" where
  "GetFileInformation unix_Stat path isNFSCopy =
     (case unix_Stat path of
        Inl err \<Rightarrow>
          (ByHandleFileInformation_zero, Some (''stat('' @ path @ '') failed: '' @ err))
      | Inr st \<Rightarrow>
          (let info = ByHandleFileInformation_zero;
               info = (if Mode st AND S_IFMT = S_IFDIR
                       then info\<lparr>FileAttributes := FileAttributes info OR 0x10\<rparr>
                       else info\<lparr>FileAttributes := 0x80\<rparr>);
               info = info\<lparr>CreationTime :=
                        TimespecToFiletime \<lparr>Sec = Sec (Mtim st), Nsec = Nsec (Mtim st)\<rparr>\<rparr>;
               info = info\<lparr>LastAccessTime :=
                        TimespecToFiletime \<lparr>Sec = Sec (Atim st), Nsec = Nsec (Atim st)\<rparr>\<rparr>;
               info = info\<lparr>LastWriteTime :=
                        TimespecToFiletime \<lparr>Sec = Sec (Mtim st), Nsec = Nsec (Mtim st)\<rparr>\<rparr>;
               info = info\<lparr>VolumeSerialNumber := 0\<rparr>;
               size = Size st;
               info = info\<lparr>FileSizeHigh := ucast (drop_bit 32 size)\<rparr>;
               info = info\<lparr>FileSizeLow := ucast (size AND 0xFFFFFFFF)\<rparr>;
               info = info\<lparr>NumberOfLinks := ucast (Nlink st)\<rparr>;
               ino = Ino st;
               info = info\<lparr>FileIndexHigh := ucast (drop_bit 32 ino)\<rparr>;
               info = info\<lparr>FileIndexLow := ucast (ino AND 0xFFFFFFFF)\<rparr>
           in (info, None)))"

text \<open>An operating system with one directory and one large file.\<close>

definition example_Stat :: "string \<Rightarrow> error + Stat_t" where
  "example_Stat path =
     (if path = ''/tmp'' then
        Inr \<lparr>Ino = 2, Nlink = 9, Mode = 0x43ff,
             Atim = \<lparr>Sec = 1700000000, Nsec = 5\<rparr>, Mtim = \<lparr>Sec = 1700000000, Nsec = 250\<rparr>,
             Size = 512\<rparr>
      else if path = ''/tmp/big'' then
        Inr \<lparr>Ino = 4294967298, Nlink = 1, Mode = 0x81a4,
             Atim = \<lparr>Sec = 1700000000, Nsec = 5\<rparr>, Mtim = \<lparr>Sec = 1700000000, Nsec = 250\<rparr>,
             Size = 4294967301\<rparr>
      else Inl ''no such file or directory'')"

section \<open>common/writeThoughFile\_freebsd.go: creating a file of a given size\<close>

text \<open>
  The function talks to four collaborators that are not part of this file: the package's
  own \<open>CreateParentDirectoryIfNotExist\<close>, and \<open>os.OpenFile\<close>, \<open>(*os.File).Truncate\<close> and
  \<open>(*os.File).Close\<close> of the standard library. They are parameters of the model, each a
  function of the state of the world \<open>'w\<close> that returns its answer and the new world; so is
  the package constant \<open>DEFAULT_FILE_PERM\<close>. \<open>'e\<close> is the type of error values, \<open>'h\<close> of
  open file handles, \<open>'t\<close> stands for \<open>FolderCreationTracker\<close>.
\<close>

record ('w, 'e, 'h, 't) collaborators =
  CreateParentDirectoryIfNotExist :: "string \<Rightarrow> 't \<Rightarrow> 'w \<Rightarrow> 'e option \<times> 'w"
  OpenFile :: "string \<Rightarrow> int64 \<Rightarrow> uint32 \<Rightarrow> 'w \<Rightarrow> ('e + 'h) \<times> 'w"
  Truncate :: "'h \<Rightarrow> int64 \<Rightarrow> 'w \<Rightarrow> 'e option \<times> 'w"
  Close :: "'h \<Rightarrow> 'w \<Rightarrow> 'e option \<times> 'w"
  DEFAULT_FILE_PERM :: uint32

text \<open>The flag constants of package \<open>os\<close> on FreeBSD (Go's \<open>int\<close> is 64 bits wide there).\<close>

definition O_RDWR :: int64 where "O_RDWR = 0x2"
definition O_CREATE :: int64 where "O_CREATE = 0x200"
definition O_TRUNC :: int64 where "O_TRUNC = 0x400"
definition O_SYNC :: int64 where "O_SYNC = 0x80"

text \<open>
  Every call to a collaborator is recorded, in order, next to the world it acts on, so
  that which calls a run made (and which it did not make) can be read off the result.
\<close>

datatype ('h, 't) call =
    Called_CreateParentDirectoryIfNotExist string 't
  | Called_OpenFile string int64 uint32
  | Called_Truncate 'h int64
  | Called_Close 'h

record ('w, 'h, 't) run =
  world :: 'w
  calls :: "('h, 't) call list"

definition call_CreateParentDirectoryIfNotExist ::
  "('w, 'e, 'h, 't) collaborators \<Rightarrow> string \<Rightarrow> 't \<Rightarrow> ('w, 'h, 't) run
     \<Rightarrow> 'e option \<times> ('w, 'h, 't) run" where
  "call_CreateParentDirectoryIfNotExist env path t s =
     (let (err, w) = CreateParentDirectoryIfNotExist env path t (world s)
      in (err, \<lparr>world = w, calls = calls s @ [Called_CreateParentDirectoryIfNotExist path t]\<rparr>))"

definition call_OpenFile ::
  "('w, 'e, 'h, 't) collaborators \<Rightarrow> string \<Rightarrow> int64 \<Rightarrow> uint32 \<Rightarrow> ('w, 'h, 't) run
     \<Rightarrow> ('e + 'h) \<times> ('w, 'h, 't) run" where
  "call_OpenFile env name flag perm s =
     (let (r, w) = OpenFile env name flag perm (world s)
      in (r, \<lparr>world = w, calls = calls s @ [Called_OpenFile name flag perm]\<rparr>))"

definition call_Truncate ::
  "('w, 'e, 'h, 't) collaborators \<Rightarrow> 'h \<Rightarrow> int64 \<Rightarrow> ('w, 'h, 't) run
     \<Rightarrow> 'e option \<times> ('w, 'h, 't) run" where
  "call_Truncate env f sz s =
     (let (err, w) = Truncate env f sz (world s)
      in (err, \<lparr>world = w, calls = calls s @ [Called_Truncate f sz]\<rparr>))"

definition call_Close ::
  "('w, 'e, 'h, 't) collaborators \<Rightarrow> 'h \<Rightarrow> ('w, 'h, 't) run
     \<Rightarrow> 'e option \<times> ('w, 'h, 't) run" where
  "call_Close env f s =
     (let (err, w) = Close env f (world s)
      in (err, \<lparr>world = w, calls = calls s @ [Called_Close f]\<rparr>))"

text \<open>
  The result is Go's pair \<open>(*os.File, error)\<close>, each component \<open>nil\<close> (\<open>None\<close>) or a value,
  together with the run after the call.
\<close>

definition CreateFileOfSizeWithWriteThroughOption ::
  "('w, 'e, 'h, 't) collaborators \<Rightarrow> string \<Rightarrow> int64 \<Rightarrow> bool \<Rightarrow> 't \<Rightarrow> bool
     \<Rightarrow> ('w, 'h, 't) run \<Rightarrow> ('h option \<times> 'e option) \<times> ('w, 'h, 't) run" where
  "CreateFileOfSizeWithWriteThroughOption env destinationPath fileSize writeThrough t
       forceIfReadOnly s0 =
     (let (err, s1) = call_CreateParentDirectoryIfNotExist env destinationPath t s0 in
      case err of
        Some e \<Rightarrow> ((None, Some e), s1)
      | None \<Rightarrow>
          (let flags = O_RDWR OR O_CREATE OR O_TRUNC;
               flags = (if writeThrough then flags OR O_SYNC else flags);
               (r, s2) = call_OpenFile env destinationPath flags (DEFAULT_FILE_PERM env) s1 in
           case r of
             Inl e \<Rightarrow> ((None, Some e), s2)
           | Inr f \<Rightarrow>
               if fileSize = 0 then ((Some f, None), s2)
               else
                 (let (terr, s3) = call_Truncate env f fileSize s2 in
                  case terr of
                    Some e \<Rightarrow> (let (_, s4) = call_Close env f s3 in ((None, Some e), s4))
                  | None \<Rightarrow> ((Some f, None), s3))))"

definition SetBackupMode :: "bool \<Rightarrow> 'f \<Rightarrow> error option" where
  "SetBackupMode enable fromTo = None"

text \<open>
  Collaborators for a concrete run: the parent directory exists, the file opens as handle
  3, no space is left to resize it, and closing it fails too. The world counts the calls.
\<close>

definition disk_full :: "(nat, string, nat, unit) collaborators" where
  "disk_full =
     \<lparr>CreateParentDirectoryIfNotExist = (\<lambda>path t w. (None, w + 1)),
      OpenFile = (\<lambda>name flag perm w. (Inr 3, w + 1)),
      Truncate = (\<lambda>f sz w. (Some ''no space left on device'', w + 1)),
      Close = (\<lambda>f w. (Some ''input/output error'', w + 1)),
      DEFAULT_FILE_PERM = 0x1a4\<rparr>"

text \<open>Collaborators for a concrete run: the parent directory cannot be created.\<close>

definition read_only_parent :: "(nat, string, nat, unit) collaborators" where
  "read_only_parent =
     \<lparr>CreateParentDirectoryIfNotExist = (\<lambda>path t w. (Some ''read-only file system'', w + 1)),
      OpenFile = (\<lambda>name flag perm w. (Inr 3, w + 1)),
      Truncate = (\<lambda>f sz w. (None, w + 1)),
      Close = (\<lambda>f w. (None, w + 1)),
      DEFAULT_FILE_PERM = 0x1a4\<rparr>"

section \<open>Credential cache\<close>

text \<open>
  \<open>sync.Mutex\<close> is its state: held or free. \<open>isPermSet\<close> and \<open>keyName\<close> are the other two
  fields of the struct. Of \<open>CredCacheOptions\<close> only \<open>KeyName\<close> is read.
\<close>

record CredCache =
  keyName :: string
  lock :: bool
  isPermSet :: bool

record CredCacheOptions =
  KeyName :: string

definition NewCredCache :: "CredCacheOptions \<Rightarrow> CredCache" where
  "NewCredCache options = \<lparr>keyName = KeyName options, lock = False, isPermSet = False\<rparr>"

text \<open>
  What a call does: it returns, or it never returns because it waits for a mutex that is
  held (\<open>Blocks\<close>), or the runtime stops the program (\<open>Fatal\<close>: unlocking a mutex that is
  not locked).
\<close>

datatype 'a exec = Returns 'a | Blocks | Fatal

definition Mutex_Lock :: "CredCache \<Rightarrow> CredCache exec" where
  "Mutex_Lock c = (if lock c then Blocks else Returns (c\<lparr>lock := True\<rparr>))"

definition Mutex_Unlock :: "CredCache \<Rightarrow> CredCache exec" where
  "Mutex_Unlock c = (if lock c then Returns (c\<lparr>lock := False\<rparr>) else Fatal)"

text \<open>The four internal methods: they read and write nothing.\<close>

definition hasCachedTokenInternal :: "CredCache \<Rightarrow> bool \<times> error option" where
  "hasCachedTokenInternal c = (False, None)"

definition removeCachedTokenInternal :: "CredCache \<Rightarrow> error option" where
  "removeCachedTokenInternal c = None"

definition saveTokenInternal :: "CredCache \<Rightarrow> 'tok \<Rightarrow> error option" where
  "saveTokenInternal c token = None"

definition loadTokenInternal :: "CredCache \<Rightarrow> 'tok option \<times> error option" where
  "loadTokenInternal c = (None, None)"

text \<open>The four public methods: lock, internal method, unlock, return.\<close>

definition HasCachedToken :: "CredCache \<Rightarrow> ((bool \<times> error option) \<times> CredCache) exec" where
  "HasCachedToken c =
     (case Mutex_Lock c of
        Returns c1 \<Rightarrow>
          (let (has, err) = hasCachedTokenInternal c1 in
           case Mutex_Unlock c1 of
             Returns c2 \<Rightarrow> Returns ((has, err), c2)
           | Blocks \<Rightarrow> Blocks
           | Fatal \<Rightarrow> Fatal)
      | Blocks \<Rightarrow> Blocks
      | Fatal \<Rightarrow> Fatal)"

definition RemoveCachedToken :: "CredCache \<Rightarrow> (error option \<times> CredCache) exec" where
  "RemoveCachedToken c =
     (case Mutex_Lock c of
        Returns c1 \<Rightarrow>
          (let err = removeCachedTokenInternal c1 in
           case Mutex_Unlock c1 of
             Returns c2 \<Rightarrow> Returns (err, c2)
           | Blocks \<Rightarrow> Blocks
           | Fatal \<Rightarrow> Fatal)
      | Blocks \<Rightarrow> Blocks
      | Fatal \<Rightarrow> Fatal)"

definition SaveToken :: "'tok \<Rightarrow> CredCache \<Rightarrow> (error option \<times> CredCache) exec" where
  "SaveToken token c =
     (case Mutex_Lock c of
        Returns c1 \<Rightarrow>
          (let err = saveTokenInternal c1 token in
           case Mutex_Unlock c1 of
             Returns c2 \<Rightarrow> Returns (err, c2)
           | Blocks \<Rightarrow> Blocks
           | Fatal \<Rightarrow> Fatal)
      | Blocks \<Rightarrow> Blocks
      | Fatal \<Rightarrow> Fatal)"

definition LoadToken :: "CredCache \<Rightarrow> (('tok option \<times> error option) \<times> CredCache) exec" where
  "LoadToken c =
     (case Mutex_Lock c of
        Returns c1 \<Rightarrow>
          (let (token, err) = loadTokenInternal c1 in
           case Mutex_Unlock c1 of
             Returns c2 \<Rightarrow> Returns ((token, err), c2)
           | Blocks \<Rightarrow> Blocks
           | Fatal \<Rightarrow> Fatal)
      | Blocks \<Rightarrow> Blocks
      | Fatal \<Rightarrow> Fatal)"

text \<open>
  A caller's sequence of operations on one cache: which method it calls, and what the
  method returned.
\<close>

datatype 'tok operation =
    Do_HasCachedToken
  | Do_RemoveCachedToken
  | Do_SaveToken 'tok
  | Do_LoadToken

datatype 'tok returned =
    HasCachedToken_returned bool "error option"
  | RemoveCachedToken_returned "error option"
  | SaveToken_returned "error option"
  | LoadToken_returned "'tok option" "error option"

fun perform :: "'tok operation \<Rightarrow> CredCache \<Rightarrow> ('tok returned \<times> CredCache) exec" where
  "perform Do_HasCachedToken c =
     (case HasCachedToken c of
        Returns ((has, err), c') \<Rightarrow> Returns (HasCachedToken_returned has err, c')
      | Blocks \<Rightarrow> Blocks | Fatal \<Rightarrow> Fatal)"
| "perform Do_RemoveCachedToken c =
     (case RemoveCachedToken c of
        Returns (err, c') \<Rightarrow> Returns (RemoveCachedToken_returned err, c')
      | Blocks \<Rightarrow> Blocks | Fatal \<Rightarrow> Fatal)"
| "perform (Do_SaveToken token) c =
     (case SaveToken token c of
        Returns (err, c') \<Rightarrow> Returns (SaveToken_returned err, c')
      | Blocks \<Rightarrow> Blocks | Fatal \<Rightarrow> Fatal)"
| "perform Do_LoadToken c =
     (case LoadToken c of
        Returns ((token, err), c') \<Rightarrow> Returns (LoadToken_returned token err, c')
      | Blocks \<Rightarrow> Blocks | Fatal \<Rightarrow> Fatal)"

fun perform_all :: "'tok operation list \<Rightarrow> CredCache \<Rightarrow> ('tok returned list \<times> CredCache) exec" where
  "perform_all [] c = Returns ([], c)"
| "perform_all (x # xs) c =
     (case perform x c of
        Returns (r, c') \<Rightarrow>
          (case perform_all xs c' of
             Returns (rs, c'') \<Rightarrow> Returns (r # rs, c'')
           | Blocks \<Rightarrow> Blocks | Fatal \<Rightarrow> Fatal)
      | Blocks \<Rightarrow> Blocks | Fatal \<Rightarrow> Fatal)"

section \<open>Goroutines calling the public methods of one cache\<close>

text \<open>
  Several goroutines call public methods of the same \<open>CredCache\<close>. Each call runs the three
  statements of its method one at a time, interleaved with the others:
  \<open>c.lock.Lock()\<close>, the internal method, \<open>c.lock.Unlock()\<close>. A goroutine is at one of these
  points: about to lock; inside the internal method (the lock taken); about to unlock, with
  what the internal method returned; returned to its caller; or unwound by a panic of the
  internal method. No method defers anything, so unwinding runs no statement of the method.
  The internal methods of this file cannot panic; the panic stands for a fault of a backend
  put in their place, the case the comment above the internal methods is about, and it is
  taken to be recovered further up the goroutine's stack, so that the program goes on.
\<close>

datatype 'tok point =
    At_Lock
  | In_Internal
  | At_Unlock "'tok returned"
  | Has_Returned "'tok returned"
  | Has_Panicked

text \<open>What the internal method of an operation returns.\<close>

fun internal :: "'tok operation \<Rightarrow> CredCache \<Rightarrow> 'tok returned" where
  "internal Do_HasCachedToken c =
     (let (has, err) = hasCachedTokenInternal c in HasCachedToken_returned has err)"
| "internal Do_RemoveCachedToken c = RemoveCachedToken_returned (removeCachedTokenInternal c)"
| "internal (Do_SaveToken token) c = SaveToken_returned (saveTokenInternal c token)"
| "internal Do_LoadToken c =
     (let (token, err) = loadTokenInternal c in LoadToken_returned token err)"

text \<open>
  An event is a new call of a public method by a fresh goroutine, the next statement of
  goroutine \<open>i\<close>, or a panic inside the internal method that goroutine \<open>i\<close> is executing. An
  event moves the system, or cannot happen now: the goroutine waits for the mutex
  (\<open>Waits\<close>) or has nothing to run (\<open>Idle\<close>); unlocking a free mutex stops the program
  (\<open>Crashes\<close>).
\<close>

datatype 'tok event = Calls "'tok operation" | Runs nat | Panics nat

datatype 'a step = Moves 'a | Waits | Idle | Crashes

type_synonym 'tok system = "CredCache \<times> ('tok operation \<times> 'tok point) list"

fun run_statement ::
  "nat \<Rightarrow> 'tok operation \<Rightarrow> 'tok point \<Rightarrow> 'tok system \<Rightarrow> 'tok system step" where
  "run_statement i x At_Lock (c, gs) =
     (case Mutex_Lock c of
        Returns c' \<Rightarrow> Moves (c', gs[i := (x, In_Internal)])
      | Blocks \<Rightarrow> Waits
      | Fatal \<Rightarrow> Crashes)"
| "run_statement i x In_Internal (c, gs) = Moves (c, gs[i := (x, At_Unlock (internal x c))])"
| "run_statement i x (At_Unlock r) (c, gs) =
     (case Mutex_Unlock c of
        Returns c' \<Rightarrow> Moves (c', gs[i := (x, Has_Returned r)])
      | Blocks \<Rightarrow> Waits
      | Fatal \<Rightarrow> Crashes)"
| "run_statement i x (Has_Returned r) (c, gs) = Idle"
| "run_statement i x Has_Panicked (c, gs) = Idle"

fun fire :: "'tok event \<Rightarrow> 'tok system \<Rightarrow> 'tok system step" where
  "fire (Calls x) (c, gs) = Moves (c, gs @ [(x, At_Lock)])"
| "fire (Runs i) (c, gs) =
     (if i < length gs then run_statement i (fst (gs ! i)) (snd (gs ! i)) (c, gs) else Idle)"
| "fire (Panics i) (c, gs) =
     (if i < length gs \<and> snd (gs ! i) = In_Internal
      then Moves (c, gs[i := (fst (gs ! i), Has_Panicked)]) else Idle)"

text \<open>A schedule is a list of events; an event that cannot happen is passed over.\<close>

fun execute :: "'tok event list \<Rightarrow> 'tok system \<Rightarrow> 'tok system option" where
  "execute [] s = Some s"
| "execute (e # es) s =
     (case fire e s of
        Moves s' \<Rightarrow> execute es s'
      | Waits \<Rightarrow> execute es s
      | Idle \<Rightarrow> execute es s
      | Crashes \<Rightarrow> None)"

definition start :: "CredCacheOptions \<Rightarrow> 'tok system" where
  "start options = (NewCredCache options, [])"

text \<open>The points at which a goroutine has taken the lock and not given it back.\<close>

fun holds_lock :: "'tok point \<Rightarrow> bool" where
  "holds_lock At_Lock = False"
| "holds_lock In_Internal = True"
| "holds_lock (At_Unlock r) = True"
| "holds_lock (Has_Returned r) = False"
| "holds_lock Has_Panicked = True"

definition lock_inv :: "'tok system \<Rightarrow> bool" where
  "lock_inv s =
     ((lock (fst s) \<longleftrightarrow> (\<exists>i<length (snd s). holds_lock (snd (snd s ! i)))) \<and>
      (\<forall>i<length (snd s). \<forall>j<length (snd s).
          holds_lock (snd (snd s ! i)) \<and> holds_lock (snd (snd s ! j)) \<longrightarrow> i = j))"

text \<open>The points at which a goroutine is outside the locked region or will never leave it.\<close>

fun quiet :: "'tok point \<Rightarrow> bool" where
  "quiet At_Lock = True"
| "quiet In_Internal = False"
| "quiet (At_Unlock r) = False"
| "quiet (Has_Returned r) = True"
| "quiet Has_Panicked = True"

section \<open>Arithmetic of the conversion\<close>

lemma split_join64:
  "push_bit 32 (ucast (ucast (signed_drop_bit 32 t) :: 32 word) :: 64 word)
     + ucast (ucast (t AND 0xFFFFFFFF) :: 32 word) = (t :: 64 word)"
proof -
  let ?hi = "push_bit 32 (ucast (ucast (signed_drop_bit 32 t) :: 32 word) :: 64 word)"
  let ?lo = "ucast (ucast (t AND 0xFFFFFFFF) :: 32 word) :: 64 word"
  have m: "(0xFFFFFFFF :: 64 word) = mask 32" by (simp add: mask_eq_exp_minus_1)
  have hi: "?hi = push_bit 32 (drop_bit 32 t)"
    by (rule bit_word_eqI) (auto simp: bit_simps)
  have lo: "?lo = take_bit 32 t"
    unfolding m by (rule bit_word_eqI) (auto simp: bit_simps)
  have "?hi + ?lo = push_bit 32 (drop_bit 32 t) + take_bit 32 t" by (simp only: hi lo)
  also have "\<dots> = t" by (rule bits_ident)
  finally show ?thesis .
qed

lemma sdiv100_between:
  fixes k :: int
  shows "(0 \<le> k \<longrightarrow> 0 \<le> 100 * (k sdiv 100) \<and> 100 * (k sdiv 100) \<le> k) \<and>
         (k \<le> 0 \<longrightarrow> k \<le> 100 * (k sdiv 100) \<and> 100 * (k sdiv 100) \<le> 0)"
proof -
  have "100 * (\<bar>k\<bar> div 100) \<le> \<bar>k\<bar>" "0 \<le> 100 * (\<bar>k\<bar> div 100)" by simp_all
  then show ?thesis
    by (cases "0 \<le> k") (simp_all add: signed_divide_int_def sgn_if)
qed

lemma roundtrip_sint:
  "sint (Nanoseconds (NsecToFiletime n)) = 100 * (sint n sdiv 100)"
proof -
  let ?q = "sint n sdiv 100"
  have "Nanoseconds (NsecToFiletime n) = word_of_int ?q * 100"
    by (simp add: Nanoseconds_def NsecToFiletime_def Let_def int64_quo_def split_join64)
  also have "\<dots> = word_of_int (100 * ?q)" by simp
  finally have "sint (Nanoseconds (NsecToFiletime n)) = signed_take_bit 63 (100 * ?q)"
    by (simp only: sint_sbintrunc') simp
  moreover have b: "- 9223372036854775808 \<le> sint n" "sint n < 9223372036854775808"
    using sint_ge [of n] sint_lt [of n] by simp_all
  have "- 9223372036854775808 \<le> 100 * ?q" "100 * ?q < 9223372036854775808"
    using b sdiv100_between [of "sint n"] by linarith+
  then have "signed_take_bit 63 (100 * ?q) = 100 * ?q"
    by (intro signed_take_bit_int_eq_self) simp_all
  ultimately show ?thesis by simp
qed

lemma ticks_word:
  "push_bit 32 (ucast (h :: 32 word) :: 64 word) + ucast (l :: 32 word)
     = word_of_int (uint h * 2 ^ 32 + uint l)"
  by (simp only: ucast_eq push_bit_eq_mult of_int_add of_int_mult of_int_power of_int_numeral)

lemma nanos_sint:
  "sint (Nanoseconds ft) =
     signed_take_bit 63
       ((uint (HighDateTime ft) * 2 ^ 32 + uint (LowDateTime ft) - 116444736000000000) * 100)"
proof -
  have "Nanoseconds ft =
      (word_of_int (uint (HighDateTime ft) * 2 ^ 32 + uint (LowDateTime ft))
         - 116444736000000000) * 100"
    unfolding Nanoseconds_def TICKS_FROM_WINDOWS_EPOCH_TO_UNIX_EPOCH_def Let_def ticks_word ..
  also have "\<dots> = word_of_int
      ((uint (HighDateTime ft) * 2 ^ 32 + uint (LowDateTime ft) - 116444736000000000) * 100)"
    by (simp only: of_int_diff of_int_mult of_int_numeral)
  finally show ?thesis by (simp only: sint_sbintrunc') simp
qed

section \<open>Epoch offset\<close>

text \<open>
  C2. \<open>NsecToFiletime(0)\<close> is the Filetime whose 64-bit tick value
  \<open>(HighDateTime<<32)|LowDateTime\<close> is exactly 116444736000000000, the Windows-epoch
  representation of 1970-01-01T00:00:00Z.
\<close>

theorem NsecToFiletime_zero_is_epoch_offset:
  "push_bit 32 (ucast (HighDateTime (NsecToFiletime 0)) :: 64 word)
     OR ucast (LowDateTime (NsecToFiletime 0)) = 116444736000000000"
  by (simp add: NsecToFiletime_def int64_quo_def TICKS_FROM_WINDOWS_EPOCH_TO_UNIX_EPOCH_def)

section \<open>Round trip through a Filetime\<close>

lemma sdiv100_cases:
  fixes k :: int
  shows "(100 dvd k \<longrightarrow> 100 * (k sdiv 100) = k) \<and>
         (0 \<le> k \<longrightarrow> 100 * (k sdiv 100) = 100 * (k div 100)) \<and>
         (k < 0 \<and> \<not> 100 dvd k \<longrightarrow> 100 * (k sdiv 100) = 100 * (k div 100) + 100)"
  by (auto simp: signed_divide_int_eq_divide_int sgn_if)

text \<open>
  C1, as the code has it. For every \<open>int64\<close> nanosecond count \<open>n\<close>,
  \<open>Nanoseconds(NsecToFiletime(n))\<close> is \<open>n\<close> truncated towards zero to a multiple of 100:
  it is \<open>n\<close> itself when \<open>n\<close> is a multiple of 100, the nearest lower multiple of 100
  when \<open>n\<close> is not negative, and the nearest higher multiple of 100 when \<open>n\<close> is negative
  and not a multiple of 100. (\<open>div\<close> on \<open>int\<close> rounds down, so \<open>100 * (k div 100)\<close> is
  the nearest multiple of 100 at or below \<open>k\<close>.) No intermediate value overflows.
\<close>

theorem NsecToFiletime_roundtrip_truncates_toward_zero:
  "sint (Nanoseconds (NsecToFiletime n)) = 100 * (sint n sdiv 100) \<and>
   (100 dvd sint n \<longrightarrow> Nanoseconds (NsecToFiletime n) = n) \<and>
   (0 \<le> sint n \<longrightarrow> sint (Nanoseconds (NsecToFiletime n)) = 100 * (sint n div 100)) \<and>
   (sint n < 0 \<and> \<not> 100 dvd sint n \<longrightarrow>
      sint (Nanoseconds (NsecToFiletime n)) = 100 * (sint n div 100) + 100)"
proof -
  let ?r = "Nanoseconds (NsecToFiletime n)"
  have r: "sint ?r = 100 * (sint n sdiv 100)" by (rule roundtrip_sint)
  have "?r = n" if "100 dvd sint n"
  proof (rule signed_word_eqI)
    show "sint ?r = sint n" using r that sdiv100_cases [of "sint n"] by simp
  qed
  moreover have "sint ?r = 100 * (sint n div 100)" if "0 \<le> sint n"
    using r that sdiv100_cases [of "sint n"] by simp
  moreover have "sint ?r = 100 * (sint n div 100) + 100" if "sint n < 0 \<and> \<not> 100 dvd sint n"
    using r that sdiv100_cases [of "sint n"] by simp
  ultimately show ?thesis using r by blast
qed

text \<open>The cases at 300, 250, -150 and -300 nanoseconds.\<close>

theorem NsecToFiletime_roundtrip_witness:
  "Nanoseconds (NsecToFiletime 300) = 300 \<and>
   sint (Nanoseconds (NsecToFiletime 250)) = 200 \<and>
   sint (Nanoseconds (NsecToFiletime (- 150))) = - 100 \<and>
   sint (Nanoseconds (NsecToFiletime (- 300))) = - 300"
proof -
  have "100 dvd sint (300 :: int64)" "0 \<le> sint (250 :: int64)"
    "sint (- 150 :: int64) < 0 \<and> \<not> 100 dvd sint (- 150 :: int64)"
    "100 dvd sint (- 300 :: int64)"
    by simp_all
  then show ?thesis
    using NsecToFiletime_roundtrip_truncates_toward_zero [of 300]
      NsecToFiletime_roundtrip_truncates_toward_zero [of 250]
      NsecToFiletime_roundtrip_truncates_toward_zero [of "- 150"]
      NsecToFiletime_roundtrip_truncates_toward_zero [of "- 300"]
    by simp
qed

text \<open>
  At \<open>n = -150\<close> the round trip gives -100, not the nearest lower multiple of 100, which
  is -200: Go's division truncates towards zero.
\<close>

theorem NsecToFiletime_roundtrip_not_lower_counterexample:
  "\<not> 100 dvd sint (- 150 :: int64) \<and>
   sint (Nanoseconds (NsecToFiletime (- 150))) = - 100 \<and>
   sint (Nanoseconds (NsecToFiletime (- 150))) \<noteq> 100 * (sint (- 150 :: int64) div 100)"
  by (simp add: NsecToFiletime_def Nanoseconds_def int64_quo_def
      TICKS_FROM_WINDOWS_EPOCH_TO_UNIX_EPOCH_def signed_divide_int_def)

section \<open>Nanoseconds of a Filetime\<close>

text \<open>
  C3, as the code has it. For every Filetime, \<open>Nanoseconds\<close> is
  \<open>((HighDateTime<<32) + LowDateTime - 116444736000000000) * 100\<close> wrapped into the signed
  64-bit range; for every Filetime whose tick value is below the epoch offset and at least
  24211015631452242 (the product then fits in \<open>int64\<close>), the result is the exact negative
  nanosecond count.
\<close>

theorem Nanoseconds_wraps_exact_in_range:
  "sint (Nanoseconds ft) =
     signed_take_bit 63
       ((uint (HighDateTime ft) * 2 ^ 32 + uint (LowDateTime ft) - 116444736000000000) * 100) \<and>
   (24211015631452242 \<le> uint (HighDateTime ft) * 2 ^ 32 + uint (LowDateTime ft) \<and>
    uint (HighDateTime ft) * 2 ^ 32 + uint (LowDateTime ft) < 116444736000000000 \<longrightarrow>
      sint (Nanoseconds ft) =
        (uint (HighDateTime ft) * 2 ^ 32 + uint (LowDateTime ft) - 116444736000000000) * 100 \<and>
      sint (Nanoseconds ft) < 0)"
proof -
  let ?t = "uint (HighDateTime ft) * 2 ^ 32 + uint (LowDateTime ft)"
  have w: "sint (Nanoseconds ft) = signed_take_bit 63 ((?t - 116444736000000000) * 100)"
    by (rule nanos_sint)
  have "sint (Nanoseconds ft) = (?t - 116444736000000000) * 100 \<and> sint (Nanoseconds ft) < 0"
    if "24211015631452242 \<le> ?t \<and> ?t < 116444736000000000"
  proof -
    have "signed_take_bit 63 ((?t - 116444736000000000) * 100) = (?t - 116444736000000000) * 100"
      using that by (intro signed_take_bit_int_eq_self) simp_all
    with w that show ?thesis by simp
  qed
  with w show ?thesis by blast
qed

text \<open>Ten ticks before the Unix epoch: -1000 nanoseconds.\<close>

theorem Nanoseconds_wraps_exact_in_range_witness:
  "sint (Nanoseconds \<lparr>LowDateTime = 3577642998, HighDateTime = 27111902\<rparr>) = - 1000"
proof -
  let ?ft = "\<lparr>LowDateTime = 3577642998, HighDateTime = 27111902\<rparr> :: Filetime"
  have h: "24211015631452242 \<le> uint (HighDateTime ?ft) * 2 ^ 32 + uint (LowDateTime ?ft) \<and>
    uint (HighDateTime ?ft) * 2 ^ 32 + uint (LowDateTime ?ft) < 116444736000000000"
    by simp
  show ?thesis
    using Nanoseconds_wraps_exact_in_range [of ?ft] h by simp
qed

text \<open>
  The tick value 0 (1601-01-01) is below the epoch offset, yet the product
  -11644473600000000000 does not fit in 64 bits and wraps to a positive number.
\<close>

theorem Nanoseconds_before_1677_counterexample:
  "uint (HighDateTime \<lparr>LowDateTime = 0, HighDateTime = 0\<rparr>) * 2 ^ 32
     + uint (LowDateTime \<lparr>LowDateTime = 0, HighDateTime = 0\<rparr>) < (116444736000000000 :: int) \<and>
   sint (Nanoseconds \<lparr>LowDateTime = 0, HighDateTime = 0\<rparr>) = 6802270473709551616 \<and>
   sint (Nanoseconds \<lparr>LowDateTime = 0, HighDateTime = 0\<rparr>) \<noteq>
     (uint (HighDateTime \<lparr>LowDateTime = 0, HighDateTime = 0\<rparr>) * 2 ^ 32
        + uint (LowDateTime \<lparr>LowDateTime = 0, HighDateTime = 0\<rparr>) - 116444736000000000) * 100"
  by (simp add: Nanoseconds_def TICKS_FROM_WINDOWS_EPOCH_TO_UNIX_EPOCH_def)

section \<open>File information\<close>

lemma GetFileInformation_success:
  assumes "GetFileInformation unix_Stat path isNFSCopy = (info, None)"
  obtains st where "unix_Stat path = Inr st"
    and "FileAttributes info = (if Mode st AND S_IFMT = S_IFDIR then 0x10 else 0x80)"
    and "FileSizeHigh info = ucast (drop_bit 32 (Size st))"
    and "FileSizeLow info = ucast (Size st AND 0xFFFFFFFF)"
  using assms
  by (cases "unix_Stat path")
    (auto simp: GetFileInformation_def ByHandleFileInformation_zero_def Let_def split: if_splits)

text \<open>
  C4. For every successful \<open>GetFileInformation\<close> query (the returned error is \<open>nil\<close>):
  when the file-type field of the stat mode says directory, \<open>FileAttributes\<close> has the bit
  0x10 set and the bit 0x80 clear; for every other file it has 0x80 set and 0x10 clear; in
  every result exactly one of the two bits is set.
\<close>

theorem GetFileInformation_directory_bit_xor_normal_bit:
  assumes "GetFileInformation unix_Stat path isNFSCopy = (info, None)"
  shows "\<exists>st. unix_Stat path = Inr st \<and>
     (Mode st AND S_IFMT = S_IFDIR \<longrightarrow>
        FileAttributes info AND 0x10 = 0x10 \<and> FileAttributes info AND 0x80 = 0) \<and>
     (Mode st AND S_IFMT \<noteq> S_IFDIR \<longrightarrow>
        FileAttributes info AND 0x80 = 0x80 \<and> FileAttributes info AND 0x10 = 0) \<and>
     (FileAttributes info AND 0x10 = 0x10) \<noteq> (FileAttributes info AND 0x80 = 0x80)"
proof -
  from assms obtain st where st: "unix_Stat path = Inr st"
    and a: "FileAttributes info = (if Mode st AND S_IFMT = S_IFDIR then 0x10 else 0x80)"
    by (rule GetFileInformation_success)
  show ?thesis
  proof (cases "Mode st AND S_IFMT = S_IFDIR")
    case True
    with a have "FileAttributes info = 0x10" by simp
    with st True show ?thesis by simp
  next
    case False
    with a have "FileAttributes info = 0x80" by simp
    with st False show ?thesis by simp
  qed
qed

text \<open>A directory and a regular file.\<close>

theorem GetFileInformation_directory_bit_witness:
  "(\<exists>info. GetFileInformation example_Stat ''/tmp'' False = (info, None) \<and>
      FileAttributes info AND 0x10 = 0x10 \<and> FileAttributes info AND 0x80 = 0) \<and>
   (\<exists>info. GetFileInformation example_Stat ''/tmp/big'' False = (info, None) \<and>
      FileAttributes info AND 0x80 = 0x80 \<and> FileAttributes info AND 0x10 = 0)"
proof -
  obtain i1 where i1: "GetFileInformation example_Stat ''/tmp'' False = (i1, None)"
    by (simp add: GetFileInformation_def example_Stat_def Let_def)
  obtain i2 where i2: "GetFileInformation example_Stat ''/tmp/big'' False = (i2, None)"
    by (simp add: GetFileInformation_def example_Stat_def Let_def)
  from GetFileInformation_directory_bit_xor_normal_bit [OF i1]
  have "FileAttributes i1 AND 0x10 = 0x10 \<and> FileAttributes i1 AND 0x80 = 0"
    by (simp add: example_Stat_def S_IFMT_def S_IFDIR_def)
  moreover from GetFileInformation_directory_bit_xor_normal_bit [OF i2]
  have "FileAttributes i2 AND 0x80 = 0x80 \<and> FileAttributes i2 AND 0x10 = 0"
    by (simp add: example_Stat_def S_IFMT_def S_IFDIR_def)
  ultimately show ?thesis using i1 i2 by blast
qed

lemma uint_high_half: "uint (ucast (drop_bit 32 (w :: 64 word)) :: 32 word) = uint w div 2 ^ 32"
proof -
  have d: "uint (drop_bit 32 w) = uint w div 2 ^ 32"
    by (simp add: drop_bit_eq_div uint_div_distrib)
  have "uint w < 2 ^ 64" using uint_lt2p [of w] by simp
  then have "uint w div 2 ^ 32 < 2 ^ 32" by simp
  moreover have "0 \<le> uint w div 2 ^ 32" by (simp add: div_int_pos_iff)
  ultimately have "take_bit 32 (uint w div 2 ^ 32) = uint w div 2 ^ 32"
    by (simp add: take_bit_int_eq_self)
  then show ?thesis
    by (simp add: unsigned_ucast_eq d)
qed

lemma uint_low_half:
  "uint (ucast ((w :: 64 word) AND 0xFFFFFFFF) :: 32 word) = uint w mod 2 ^ 32"
proof -
  have m: "(0xFFFFFFFF :: 64 word) = mask 32" by (simp add: mask_eq_exp_minus_1)
  have "ucast (w AND mask 32) = (ucast w :: 32 word)"
    by (rule bit_word_eqI) (auto simp: bit_simps)
  then show ?thesis
    unfolding m by (simp add: unsigned_ucast_eq take_bit_eq_mod)
qed

text \<open>
  C5. For every successful \<open>GetFileInformation\<close> query, \<open>FileSizeHigh\<close> and
  \<open>FileSizeLow\<close> are the high and the low 32-bit half of the size read as an unsigned
  64-bit number; a size of \<open>2^32 + 5\<close> bytes gives \<open>FileSizeLow = 5\<close> and
  \<open>FileSizeHigh = 1\<close>.
\<close>

theorem GetFileInformation_size_halves:
  assumes "GetFileInformation unix_Stat path isNFSCopy = (info, None)"
  shows "\<exists>st. unix_Stat path = Inr st \<and>
     uint (FileSizeHigh info) = uint (Size st) div 2 ^ 32 \<and>
     uint (FileSizeLow info) = uint (Size st) mod 2 ^ 32 \<and>
     (Size st = 2 ^ 32 + 5 \<longrightarrow> FileSizeLow info = 5 \<and> FileSizeHigh info = 1)"
proof -
  from assms obtain st where st: "unix_Stat path = Inr st"
    and h: "FileSizeHigh info = ucast (drop_bit 32 (Size st))"
    and l: "FileSizeLow info = ucast (Size st AND 0xFFFFFFFF)"
    by (rule GetFileInformation_success)
  have "uint (FileSizeHigh info) = uint (Size st) div 2 ^ 32"
    unfolding h by (rule uint_high_half)
  moreover have "uint (FileSizeLow info) = uint (Size st) mod 2 ^ 32"
    unfolding l by (rule uint_low_half)
  moreover have "FileSizeLow info = 5 \<and> FileSizeHigh info = 1" if "Size st = 2 ^ 32 + 5"
    unfolding h l that by simp
  ultimately show ?thesis using st by blast
qed

text \<open>The file of \<open>2^32 + 5\<close> bytes.\<close>

theorem GetFileInformation_size_halves_witness:
  "\<exists>info. GetFileInformation example_Stat ''/tmp/big'' True = (info, None) \<and>
      FileSizeLow info = 5 \<and> FileSizeHigh info = 1 \<and>
      uint (FileSizeHigh info) = 4294967301 div 2 ^ 32 \<and>
      uint (FileSizeLow info) = 4294967301 mod 2 ^ 32"
proof -
  obtain i where i: "GetFileInformation example_Stat ''/tmp/big'' True = (i, None)"
    by (simp add: GetFileInformation_def example_Stat_def Let_def)
  from GetFileInformation_size_halves [OF i]
  have "FileSizeLow i = 5 \<and> FileSizeHigh i = 1 \<and>
      uint (FileSizeHigh i) = 4294967301 div 2 ^ 32 \<and>
      uint (FileSizeLow i) = 4294967301 mod 2 ^ 32"
    by (simp add: example_Stat_def)
  with i show ?thesis by blast
qed

text \<open>
  C10. The result of \<open>GetFileInformation\<close> does not depend on \<open>isNFSCopy\<close>: for every
  path and every answer of the operating system, the calls with \<open>true\<close> and with
  \<open>false\<close> return the same pair.
\<close>

theorem GetFileInformation_ignores_isNFSCopy:
  "GetFileInformation unix_Stat path True = GetFileInformation unix_Stat path False"
  by (simp add: GetFileInformation_def)

section \<open>Creating a sized file\<close>

text \<open>
  C6. Once the parent directory is there and the file is open as \<open>f\<close>: with
  \<open>fileSize = 0\<close> the handle \<open>f\<close> is returned at once, and the calls made are the
  directory creation and the open, no resize; with \<open>fileSize \<noteq> 0\<close> and a failing
  \<open>Truncate\<close>, \<open>f\<close> is closed, whatever \<open>Close\<close> answers is dropped, and the result is
  the error of \<open>Truncate\<close> with no handle; with \<open>fileSize \<noteq> 0\<close> the handle is returned
  only after \<open>Truncate\<close> has succeeded.
\<close>

theorem CreateFile_zero_size_or_failed_resize:
  assumes "CreateParentDirectoryIfNotExist env path t (world s0) = (None, w_dir)"
    and "flags = (if writeThrough then (O_RDWR OR O_CREATE OR O_TRUNC) OR O_SYNC
                  else O_RDWR OR O_CREATE OR O_TRUNC)"
    and "OpenFile env path flags (DEFAULT_FILE_PERM env) w_dir = (Inr f, w_open)"
  shows
    "(fileSize = 0 \<longrightarrow>
        CreateFileOfSizeWithWriteThroughOption env path fileSize writeThrough t forceIfReadOnly s0 =
          ((Some f, None),
           \<lparr>world = w_open,
            calls = calls s0 @ [Called_CreateParentDirectoryIfNotExist path t,
                                Called_OpenFile path flags (DEFAULT_FILE_PERM env)]\<rparr>)) \<and>
     (fileSize \<noteq> 0 \<and> Truncate env f fileSize w_open = (Some e, w_trunc) \<longrightarrow>
        CreateFileOfSizeWithWriteThroughOption env path fileSize writeThrough t forceIfReadOnly s0 =
          ((None, Some e),
           \<lparr>world = snd (Close env f w_trunc),
            calls = calls s0 @ [Called_CreateParentDirectoryIfNotExist path t,
                                Called_OpenFile path flags (DEFAULT_FILE_PERM env),
                                Called_Truncate f fileSize, Called_Close f]\<rparr>)) \<and>
     (fileSize \<noteq> 0 \<and> Truncate env f fileSize w_open = (None, w_trunc) \<longrightarrow>
        CreateFileOfSizeWithWriteThroughOption env path fileSize writeThrough t forceIfReadOnly s0 =
          ((Some f, None),
           \<lparr>world = w_trunc,
            calls = calls s0 @ [Called_CreateParentDirectoryIfNotExist path t,
                                Called_OpenFile path flags (DEFAULT_FILE_PERM env),
                                Called_Truncate f fileSize]\<rparr>))"
  using assms
  by (cases writeThrough)
    (auto simp: CreateFileOfSizeWithWriteThroughOption_def call_CreateParentDirectoryIfNotExist_def
      call_OpenFile_def call_Truncate_def call_Close_def Let_def split: prod.splits)

text \<open>
  A full disk: size 0 succeeds, size 4096 fails, and so does the close. With room on the
  disk, size 4096 succeeds.
\<close>

theorem CreateFile_zero_size_or_failed_resize_witness:
  "CreateFileOfSizeWithWriteThroughOption disk_full ''/d/f'' 0 True () False
       \<lparr>world = 0, calls = []\<rparr> =
     ((Some 3, None),
      \<lparr>world = 2,
       calls = [Called_CreateParentDirectoryIfNotExist ''/d/f'' (),
                Called_OpenFile ''/d/f'' ((O_RDWR OR O_CREATE OR O_TRUNC) OR O_SYNC) 0x1a4]\<rparr>) \<and>
   CreateFileOfSizeWithWriteThroughOption disk_full ''/d/f'' 4096 False () False
       \<lparr>world = 0, calls = []\<rparr> =
     ((None, Some ''no space left on device''),
      \<lparr>world = 4,
       calls = [Called_CreateParentDirectoryIfNotExist ''/d/f'' (),
                Called_OpenFile ''/d/f'' (O_RDWR OR O_CREATE OR O_TRUNC) 0x1a4,
                Called_Truncate 3 4096, Called_Close 3]\<rparr>) \<and>
   CreateFileOfSizeWithWriteThroughOption (disk_full\<lparr>Truncate := \<lambda>f sz w. (None, w + 1)\<rparr>)
       ''/d/f'' 4096 False () False \<lparr>world = 0, calls = []\<rparr> =
     ((Some 3, None),
      \<lparr>world = 3,
       calls = [Called_CreateParentDirectoryIfNotExist ''/d/f'' (),
                Called_OpenFile ''/d/f'' (O_RDWR OR O_CREATE OR O_TRUNC) 0x1a4,
                Called_Truncate 3 4096]\<rparr>)"
proof -
  let ?s0 = "\<lparr>world = 0 :: nat, calls = [] :: (nat, unit) call list\<rparr>"
  let ?roomy = "disk_full\<lparr>Truncate := \<lambda>f sz w. (None, w + 1)\<rparr>"
  have mk: "CreateParentDirectoryIfNotExist disk_full ''/d/f'' () (world ?s0) = (None, 1)"
    by (simp add: disk_full_def)
  have op: "OpenFile disk_full ''/d/f'' fl (DEFAULT_FILE_PERM disk_full) 1 = (Inr 3, 2)" for fl
    by (simp add: disk_full_def)
  have tr: "(4096 :: int64) \<noteq> 0 \<and>
      Truncate disk_full 3 4096 2 = (Some ''no space left on device'', 3)"
    by (simp add: disk_full_def)
  have cl: "snd (Close disk_full 3 3) = 4" "DEFAULT_FILE_PERM disk_full = 0x1a4"
    by (simp_all add: disk_full_def)
  have mk': "CreateParentDirectoryIfNotExist ?roomy ''/d/f'' () (world ?s0) = (None, 1)"
    by (simp add: disk_full_def)
  have op': "OpenFile ?roomy ''/d/f'' fl (DEFAULT_FILE_PERM ?roomy) 1 = (Inr 3, 2)" for fl
    by (simp add: disk_full_def)
  have tr': "(4096 :: int64) \<noteq> 0 \<and> Truncate ?roomy 3 4096 2 = (None, 3)"
    "DEFAULT_FILE_PERM ?roomy = 0x1a4"
    by (simp_all add: disk_full_def)
  have a: "CreateFileOfSizeWithWriteThroughOption disk_full ''/d/f'' 0 True () False ?s0 =
     ((Some 3, None),
      \<lparr>world = 2,
       calls = [Called_CreateParentDirectoryIfNotExist ''/d/f'' (),
                Called_OpenFile ''/d/f'' ((O_RDWR OR O_CREATE OR O_TRUNC) OR O_SYNC) 0x1a4]\<rparr>)"
    using CreateFile_zero_size_or_failed_resize [where writeThrough = True and fileSize = 0
          and forceIfReadOnly = False, OF mk refl op] cl
    by simp
  have b: "CreateFileOfSizeWithWriteThroughOption disk_full ''/d/f'' 4096 False () False ?s0 =
     ((None, Some ''no space left on device''),
      \<lparr>world = 4,
       calls = [Called_CreateParentDirectoryIfNotExist ''/d/f'' (),
                Called_OpenFile ''/d/f'' (O_RDWR OR O_CREATE OR O_TRUNC) 0x1a4,
                Called_Truncate 3 4096, Called_Close 3]\<rparr>)"
    using CreateFile_zero_size_or_failed_resize [where writeThrough = False and fileSize = 4096
          and e = "''no space left on device''" and w_trunc = 3 and forceIfReadOnly = False,
          OF mk refl op] tr cl
    by simp
  have c: "CreateFileOfSizeWithWriteThroughOption ?roomy ''/d/f'' 4096 False () False ?s0 =
     ((Some 3, None),
      \<lparr>world = 3,
       calls = [Called_CreateParentDirectoryIfNotExist ''/d/f'' (),
                Called_OpenFile ''/d/f'' (O_RDWR OR O_CREATE OR O_TRUNC) 0x1a4,
                Called_Truncate 3 4096]\<rparr>)"
    using CreateFile_zero_size_or_failed_resize [where writeThrough = False and fileSize = 4096
          and w_trunc = 3 and forceIfReadOnly = False, OF mk' refl op'] tr'
    by simp
  from a b c show ?thesis by blast
qed

text \<open>
  C7. Whenever \<open>CreateParentDirectoryIfNotExist\<close> returns an error, that error is returned
  unchanged with no handle, and the creation of the directory is the only call made: no
  file is opened.
\<close>

theorem CreateFile_directory_error_propagates:
  assumes "CreateParentDirectoryIfNotExist env path t (world s0) = (Some e, w_dir)"
  shows "CreateFileOfSizeWithWriteThroughOption env path fileSize writeThrough t forceIfReadOnly s0 =
           ((None, Some e),
            \<lparr>world = w_dir, calls = calls s0 @ [Called_CreateParentDirectoryIfNotExist path t]\<rparr>)"
  using assms
  by (simp add: CreateFileOfSizeWithWriteThroughOption_def
      call_CreateParentDirectoryIfNotExist_def)

text \<open>A parent directory on a read-only file system.\<close>

theorem CreateFile_directory_error_witness:
  "CreateFileOfSizeWithWriteThroughOption read_only_parent ''/d/f'' 4096 True () False
       \<lparr>world = 0, calls = []\<rparr> =
     ((None, Some ''read-only file system''),
      \<lparr>world = 1, calls = [Called_CreateParentDirectoryIfNotExist ''/d/f'' ()]\<rparr>)"
proof -
  let ?s0 = "\<lparr>world = 0 :: nat, calls = [] :: (nat, unit) call list\<rparr>"
  have mk: "CreateParentDirectoryIfNotExist read_only_parent ''/d/f'' () (world ?s0) =
      (Some ''read-only file system'', 1)"
    by (simp add: read_only_parent_def)
  show ?thesis
    using CreateFile_directory_error_propagates [OF mk, of 4096 True False] by simp
qed

section \<open>The stub backend\<close>

lemma public_methods_free_lock:
  assumes "\<not> lock c"
  shows "HasCachedToken c = Returns ((False, None), c)"
    and "RemoveCachedToken c = Returns (None, c)"
    and "SaveToken token c = Returns (None, c)"
    and "LoadToken c = Returns ((None, None), c)"
  using assms
  by (simp_all add: HasCachedToken_def RemoveCachedToken_def SaveToken_def LoadToken_def
      Mutex_Lock_def Mutex_Unlock_def hasCachedTokenInternal_def removeCachedTokenInternal_def
      saveTokenInternal_def loadTokenInternal_def)

lemma perform_free_lock:
  assumes "\<not> lock c"
  shows "perform x c = Returns (internal x c, c)"
  using assms
  by (cases x) (simp_all add: public_methods_free_lock hasCachedTokenInternal_def
      removeCachedTokenInternal_def saveTokenInternal_def loadTokenInternal_def)

lemma perform_all_free_lock:
  assumes "\<not> lock c"
  shows "perform_all xs c = Returns (map (\<lambda>x. internal x c) xs, c)"
  using assms by (induction xs) (simp_all add: perform_free_lock)

text \<open>
  C8. For every cache whose mutex is free and every sequence of operations performed on it
  before: \<open>HasCachedToken\<close> returns \<open>(false, nil)\<close>, \<open>LoadToken\<close> returns
  \<open>(nil, nil)\<close>, \<open>RemoveCachedToken\<close> and \<open>SaveToken\<close> return \<open>nil\<close>; and
  \<open>LoadToken\<close> returns \<open>(nil, nil)\<close> right after a \<open>SaveToken\<close> that returned \<open>nil\<close>.
\<close>

theorem stub_backend_never_holds_a_token:
  assumes "\<not> lock c"
  shows "\<exists>rs c'. perform_all xs c = Returns (rs, c') \<and>
     HasCachedToken c' = Returns ((False, None), c') \<and>
     RemoveCachedToken c' = Returns (None, c') \<and>
     SaveToken token c' = Returns (None, c') \<and>
     LoadToken c' = Returns ((None :: 'tok option, None), c') \<and>
     (\<exists>c''. SaveToken (token :: 'tok) c' = Returns (None, c'') \<and>
            LoadToken c'' = Returns ((None :: 'tok option, None), c''))"
  using assms by (simp add: perform_all_free_lock public_methods_free_lock)

text \<open>A fresh cache for \<open>user1\<close>, after saving, loading and removing a token.\<close>

theorem stub_backend_witness:
  "\<exists>rs c'. perform_all [Do_SaveToken ''secret'', Do_LoadToken, Do_RemoveCachedToken]
        (NewCredCache \<lparr>KeyName = ''user1''\<rparr>) = Returns (rs, c') \<and>
     HasCachedToken c' = Returns ((False, None), c') \<and>
     (\<exists>c''. SaveToken ''secret'' c' = Returns (None, c'') \<and>
            LoadToken c'' = Returns ((None :: string option, None), c''))"
proof -
  have free: "\<not> lock (NewCredCache \<lparr>KeyName = ''user1''\<rparr>)"
    by (simp add: NewCredCache_def)
  from stub_backend_never_holds_a_token [OF free,
      of "[Do_SaveToken ''secret'', Do_LoadToken, Do_RemoveCachedToken]" "''secret''"]
  show ?thesis by blast
qed

section \<open>Serialized calls\<close>

lemma lock_inv_start: "lock_inv (start options)"
  by (simp add: lock_inv_def start_def NewCredCache_def)

lemma lock_inv_Calls:
  assumes "lock_inv (c, gs)"
  shows "lock_inv (c, gs @ [(x, At_Lock)])"
  using assms unfolding lock_inv_def
  by (auto simp: nth_append less_Suc_eq)

lemma lock_inv_same_holder:
  assumes "lock_inv (c, gs)" "i < length gs" "holds_lock (snd (gs ! i))" "holds_lock p"
  shows "lock_inv (c, gs[i := (x, p)])"
  using assms unfolding lock_inv_def
  by (auto simp: nth_list_update)

lemma lock_inv_acquire:
  assumes "lock_inv (c, gs)" "i < length gs" "\<not> lock c" "holds_lock p"
  shows "lock_inv (c\<lparr>lock := True\<rparr>, gs[i := (x, p)])"
  using assms unfolding lock_inv_def
  by (auto simp: nth_list_update)

lemma lock_inv_release:
  assumes "lock_inv (c, gs)" "i < length gs" "holds_lock (snd (gs ! i))" "\<not> holds_lock p"
  shows "lock_inv (c\<lparr>lock := False\<rparr>, gs[i := (x, p)])"
  using assms unfolding lock_inv_def
  by (auto simp: nth_list_update)

lemma lock_inv_holder_locked:
  assumes "lock_inv (c, gs)" "i < length gs" "holds_lock (snd (gs ! i))"
  shows "lock c"
  using assms unfolding lock_inv_def by auto

lemma run_statement_lock_inv:
  assumes inv: "lock_inv (c, gs)" and i: "i < length gs" and p: "snd (gs ! i) = p"
  shows "run_statement i x p (c, gs) \<noteq> Crashes \<and>
         (\<forall>s'. run_statement i x p (c, gs) = Moves s' \<longrightarrow> lock_inv s')"
proof (cases p)
  case At_Lock
  then show ?thesis
    using inv i by (auto simp: Mutex_Lock_def intro: lock_inv_acquire)
next
  case In_Internal
  then show ?thesis
    using inv i p by (auto intro: lock_inv_same_holder)
next
  case (At_Unlock r)
  with inv i p have "lock c" by (auto intro: lock_inv_holder_locked)
  with At_Unlock show ?thesis
    using inv i p by (auto simp: Mutex_Unlock_def intro: lock_inv_release)
next
  case (Has_Returned r)
  then show ?thesis by simp
next
  case Has_Panicked
  then show ?thesis by simp
qed

lemma fire_lock_inv:
  assumes "lock_inv s"
  shows "fire e s \<noteq> Crashes \<and> (\<forall>s'. fire e s = Moves s' \<longrightarrow> lock_inv s')"
proof -
  obtain c gs where s: "s = (c, gs)" by (cases s)
  show ?thesis
  proof (cases e)
    case (Calls x)
    then show ?thesis using assms s by (auto intro: lock_inv_Calls)
  next
    case (Runs i)
    then show ?thesis
      using assms s run_statement_lock_inv [of c gs i "snd (gs ! i)" "fst (gs ! i)"]
      by auto
  next
    case (Panics i)
    then show ?thesis using assms s by (auto intro: lock_inv_same_holder)
  qed
qed

lemma execute_lock_inv:
  "lock_inv s \<Longrightarrow> \<exists>s'. execute es s = Some s' \<and> lock_inv s'"
proof (induction es arbitrary: s)
  case Nil
  then show ?case by simp
next
  case (Cons e es)
  from fire_lock_inv [OF Cons.prems, of e] show ?case
    using Cons.IH Cons.prems by (cases "fire e s") auto
qed

lemma panicked_quiet:
  assumes "lock_inv (c, gs)" "k < length gs" "snd (gs ! k) = Has_Panicked"
  shows "lock c \<and> (\<forall>i<length gs. quiet (snd (gs ! i)))"
proof -
  have h: "holds_lock (snd (gs ! k))" using assms by simp
  have "lock c" using assms h by (auto intro: lock_inv_holder_locked)
  moreover have "quiet (snd (gs ! i))" if "i < length gs" for i
  proof (cases "i = k")
    case True then show ?thesis using assms by simp
  next
    case False
    with assms h that have "\<not> holds_lock (snd (gs ! i))"
      unfolding lock_inv_def by auto
    then show ?thesis by (cases "snd (gs ! i)") simp_all
  qed
  ultimately show ?thesis by blast
qed

lemma fire_frozen:
  assumes "lock c" "\<forall>i<length gs. quiet (snd (gs ! i))"
  shows "fire e (c, gs) = Waits \<or> fire e (c, gs) = Idle \<or>
         (\<exists>x. fire e (c, gs) = Moves (c, gs @ [(x, At_Lock)]))"
proof (cases e)
  case (Calls x)
  then show ?thesis by simp
next
  case (Runs i)
  show ?thesis
  proof (cases "i < length gs")
    case True
    with assms have "quiet (snd (gs ! i))" by blast
    then show ?thesis using Runs True assms(1)
      by (cases "snd (gs ! i)") (simp_all add: Mutex_Lock_def)
  next
    case False
    then show ?thesis using Runs by simp
  qed
next
  case (Panics i)
  then show ?thesis using assms by auto
qed

lemma execute_frozen:
  assumes "lock c" "\<forall>i<length gs. quiet (snd (gs ! i))"
  shows "\<exists>xs. execute es (c, gs) = Some (c, gs @ map (\<lambda>x. (x, At_Lock)) xs)"
  using assms
proof (induction es arbitrary: gs)
  case Nil
  have "execute [] (c, gs) = Some (c, gs @ map (\<lambda>x. (x, At_Lock)) [])" by simp
  then show ?case by blast
next
  case (Cons e es)
  from fire_frozen [OF Cons.prems, of e] consider
      "fire e (c, gs) = Waits" | "fire e (c, gs) = Idle"
    | x where "fire e (c, gs) = Moves (c, gs @ [(x, At_Lock)])" by blast
  then show ?case
  proof cases
    case 1
    then show ?thesis using Cons.IH [OF Cons.prems] by simp
  next
    case 2
    then show ?thesis using Cons.IH [OF Cons.prems] by simp
  next
    case 3
    have q: "\<forall>i<length (gs @ [(x, At_Lock)]). quiet (snd ((gs @ [(x, At_Lock)]) ! i))"
      using Cons.prems(2) by (auto simp: nth_append less_Suc_eq)
    from Cons.IH [OF Cons.prems(1) q] obtain xs where
      "execute es (c, gs @ [(x, At_Lock)]) = Some (c, (gs @ [(x, At_Lock)]) @ map (\<lambda>x. (x, At_Lock)) xs)"
      by blast
    then have "execute (e # es) (c, gs) = Some (c, gs @ map (\<lambda>x. (x, At_Lock)) (x # xs))"
      using 3 by simp
    then show ?thesis by blast
  qed
qed

lemma internal_ignores_cache: "internal x c = internal x c'"
  by (cases x) (simp_all add: hasCachedTokenInternal_def removeCachedTokenInternal_def
      saveTokenInternal_def loadTokenInternal_def)

text \<open>
  A goroutine that runs its three statements with nobody else around does what the public
  method does.
\<close>

lemma lone_goroutine_is_perform:
  assumes "\<not> lock c"
  shows "\<exists>r c'. perform x c = Returns (r, c') \<and>
     execute [Calls x, Runs 0, Runs 0, Runs 0] (c, []) = Some (c', [(x, Has_Returned r)])"
  using assms
  by (simp add: perform_free_lock Mutex_Lock_def Mutex_Unlock_def
      internal_ignores_cache [of x "c\<lparr>lock := True\<rparr>" c])

lemma public_methods_held_lock:
  assumes "lock c"
  shows "HasCachedToken c = Blocks"
    and "RemoveCachedToken c = Blocks"
    and "SaveToken token c = Blocks"
    and "LoadToken c = Blocks"
  using assms
  by (simp_all add: HasCachedToken_def RemoveCachedToken_def SaveToken_def LoadToken_def
      Mutex_Lock_def)

lemma call_runs_to_return:
  assumes free: "\<not> lock c" and i: "i < length gs" and at: "gs ! i = (x, At_Lock)"
  shows "perform x c = Returns (internal x c, c)"
    and "fire (Runs i) (c, gs) = Moves (c\<lparr>lock := True\<rparr>, gs[i := (x, In_Internal)])"
    and "fire (Runs i) (c\<lparr>lock := True\<rparr>, gs[i := (x, In_Internal)]) =
           Moves (c\<lparr>lock := True\<rparr>, gs[i := (x, At_Unlock (internal x c))])"
    and "fire (Runs i) (c\<lparr>lock := True\<rparr>, gs[i := (x, At_Unlock (internal x c))]) =
           Moves (c, gs[i := (x, Has_Returned (internal x c))])"
proof -
  show "perform x c = Returns (internal x c, c)" using free by (rule perform_free_lock)
  show "fire (Runs i) (c, gs) = Moves (c\<lparr>lock := True\<rparr>, gs[i := (x, In_Internal)])"
    using free i at by (simp add: Mutex_Lock_def)
  show "fire (Runs i) (c\<lparr>lock := True\<rparr>, gs[i := (x, In_Internal)]) =
           Moves (c\<lparr>lock := True\<rparr>, gs[i := (x, At_Unlock (internal x c))])"
    using i by (simp add: internal_ignores_cache [of x "c\<lparr>lock := True\<rparr>" c])
  show "fire (Runs i) (c\<lparr>lock := True\<rparr>, gs[i := (x, At_Unlock (internal x c))]) =
           Moves (c, gs[i := (x, Has_Returned (internal x c))])"
    using free i by (simp add: Mutex_Unlock_def)
qed

lemma reachable_progress:
  assumes inv: "lock_inv (c, gs)" and i: "i < length gs"
  shows "snd (gs ! i) = At_Unlock r \<longrightarrow>
           fire (Runs i) (c, gs) = Moves (c\<lparr>lock := False\<rparr>, gs[i := (fst (gs ! i), Has_Returned r)])"
    and "snd (gs ! i) = In_Internal \<longrightarrow>
           fire (Runs i) (c, gs) =
             Moves (c, gs[i := (fst (gs ! i), At_Unlock (internal (fst (gs ! i)) c))])"
    and "snd (gs ! i) = At_Lock \<longrightarrow>
           fire (Runs i) (c, gs) =
             (if lock c then Waits
              else Moves (c\<lparr>lock := True\<rparr>, gs[i := (fst (gs ! i), In_Internal)]))"
proof -
  show "snd (gs ! i) = At_Unlock r \<longrightarrow>
           fire (Runs i) (c, gs) = Moves (c\<lparr>lock := False\<rparr>, gs[i := (fst (gs ! i), Has_Returned r)])"
  proof
    assume u: "snd (gs ! i) = At_Unlock r"
    then have "holds_lock (snd (gs ! i))" by simp
    with inv i have "lock c" by (rule lock_inv_holder_locked)
    with u i show "fire (Runs i) (c, gs) =
        Moves (c\<lparr>lock := False\<rparr>, gs[i := (fst (gs ! i), Has_Returned r)])"
      by (simp add: Mutex_Unlock_def)
  qed
  show "snd (gs ! i) = In_Internal \<longrightarrow>
           fire (Runs i) (c, gs) =
             Moves (c, gs[i := (fst (gs ! i), At_Unlock (internal (fst (gs ! i)) c))])"
    using i by simp
  show "snd (gs ! i) = At_Lock \<longrightarrow>
           fire (Runs i) (c, gs) =
             (if lock c then Waits
              else Moves (c\<lparr>lock := True\<rparr>, gs[i := (fst (gs ! i), In_Internal)]))"
    using i by (simp add: Mutex_Lock_def)
qed

lemma no_deadlock_without_panic:
  assumes inv: "lock_inv (c, gs)"
    and np: "\<forall>k<length gs. snd (gs ! k) \<noteq> Has_Panicked"
    and i: "i < length gs" and nr: "\<forall>r. snd (gs ! i) \<noteq> Has_Returned r"
  shows "\<exists>j<length gs. \<exists>s'. fire (Runs j) (c, gs) = Moves s'"
proof (cases "lock c")
  case True
  with inv obtain j where j: "j < length gs" "holds_lock (snd (gs ! j))"
    unfolding lock_inv_def by auto
  with np have "snd (gs ! j) = In_Internal \<or> (\<exists>r. snd (gs ! j) = At_Unlock r)"
    by (cases "snd (gs ! j)") auto
  with reachable_progress [OF inv j(1)] have "\<exists>s'. fire (Runs j) (c, gs) = Moves s'"
    by metis
  with j(1) show ?thesis by blast
next
  case False
  with inv have "\<not> holds_lock (snd (gs ! i))" using i unfolding lock_inv_def by auto
  with np nr i have "snd (gs ! i) = At_Lock" by (cases "snd (gs ! i)") auto
  with reachable_progress(3) [OF inv i] False have "\<exists>s'. fire (Runs i) (c, gs) = Moves s'"
    by simp
  with i show ?thesis by blast
qed

text \<open>
  C9. Each public method waits when the mutex is held. A call that finds the mutex free
  takes it with its first statement, runs its internal method with the mutex held, gives
  the mutex back with its third statement and returns what the public method returns, the
  cache as it was before the call. In every state that goroutines calling the public
  methods of a new cache can reach, under every schedule: the mutex is held exactly when
  some goroutine is between its \<open>Lock\<close> and its \<open>Unlock\<close> or has panicked in between;
  at most one goroutine is inside an internal method; a goroutine at \<open>Lock\<close> waits while
  the mutex is held and takes it otherwise, a goroutine inside its internal method goes on
  to \<open>Unlock\<close>, and a goroutine at \<open>Unlock\<close> frees the mutex and returns; as long as no
  internal method has panicked, some goroutine can move unless all have returned; and
  once an internal method has panicked, the mutex is held, no internal method runs, and
  whatever happens next changes nothing but the list of callers, all of them waiting at
  \<open>Lock\<close>.
\<close>

theorem CredCache_calls_serialized_and_fail_stop:
  "(lock cache \<longrightarrow>
      HasCachedToken cache = Blocks \<and> RemoveCachedToken cache = Blocks \<and>
      SaveToken (token :: 'tok) cache = Blocks \<and>
      LoadToken cache = (Blocks :: (('tok option \<times> error option) \<times> CredCache) exec)) \<and>
   (\<not> lock cache \<and> i < length callers \<and> callers ! i = (x, At_Lock) \<longrightarrow>
      (\<exists>r. perform x cache = Returns (r, cache) \<and>
           fire (Runs i) (cache, callers) = Moves (cache\<lparr>lock := True\<rparr>, callers[i := (x, In_Internal)]) \<and>
           fire (Runs i) (cache\<lparr>lock := True\<rparr>, callers[i := (x, In_Internal)]) =
             Moves (cache\<lparr>lock := True\<rparr>, callers[i := (x, At_Unlock r)]) \<and>
           fire (Runs i) (cache\<lparr>lock := True\<rparr>, callers[i := (x, At_Unlock r)]) =
             Moves (cache, callers[i := (x :: 'tok operation, Has_Returned r)]))) \<and>
   (\<exists>c gs. execute es (start options) = Some (c, gs :: ('tok operation \<times> 'tok point) list) \<and>
     (lock c \<longleftrightarrow> (\<exists>i<length gs. holds_lock (snd (gs ! i)))) \<and>
     (\<forall>i<length gs. snd (gs ! i) = In_Internal \<longrightarrow> lock c) \<and>
     (\<forall>i<length gs. \<forall>j<length gs.
        snd (gs ! i) = In_Internal \<and> snd (gs ! j) = In_Internal \<longrightarrow> i = j) \<and>
     (\<forall>i<length gs. snd (gs ! i) = At_Lock \<longrightarrow>
        fire (Runs i) (c, gs) =
          (if lock c then Waits
           else Moves (c\<lparr>lock := True\<rparr>, gs[i := (fst (gs ! i), In_Internal)]))) \<and>
     (\<forall>i<length gs. snd (gs ! i) = In_Internal \<longrightarrow>
        fire (Runs i) (c, gs) =
          Moves (c, gs[i := (fst (gs ! i), At_Unlock (internal (fst (gs ! i)) c))])) \<and>
     (\<forall>i<length gs. \<forall>r. snd (gs ! i) = At_Unlock r \<longrightarrow>
        fire (Runs i) (c, gs) =
          Moves (c\<lparr>lock := False\<rparr>, gs[i := (fst (gs ! i), Has_Returned r)])) \<and>
     ((\<forall>k<length gs. snd (gs ! k) \<noteq> Has_Panicked) \<and>
      (\<exists>i<length gs. \<forall>r. snd (gs ! i) \<noteq> Has_Returned r) \<longrightarrow>
        (\<exists>j<length gs. \<exists>s'. fire (Runs j) (c, gs) = Moves s')) \<and>
     ((\<exists>k<length gs. snd (gs ! k) = Has_Panicked) \<longrightarrow>
        lock c \<and> (\<forall>i<length gs. snd (gs ! i) \<noteq> In_Internal) \<and>
        (\<forall>es'. \<exists>xs. execute es' (c, gs) = Some (c, gs @ map (\<lambda>x. (x, At_Lock)) xs))))"
proof -
  have held: "lock cache \<longrightarrow>
      HasCachedToken cache = Blocks \<and> RemoveCachedToken cache = Blocks \<and>
      SaveToken token cache = Blocks \<and>
      LoadToken cache = (Blocks :: (('tok option \<times> error option) \<times> CredCache) exec)"
    by (simp add: public_methods_held_lock)
  have free: "\<not> lock cache \<and> i < length callers \<and> callers ! i = (x, At_Lock) \<longrightarrow>
      (\<exists>r. perform x cache = Returns (r, cache) \<and>
           fire (Runs i) (cache, callers) = Moves (cache\<lparr>lock := True\<rparr>, callers[i := (x, In_Internal)]) \<and>
           fire (Runs i) (cache\<lparr>lock := True\<rparr>, callers[i := (x, In_Internal)]) =
             Moves (cache\<lparr>lock := True\<rparr>, callers[i := (x, At_Unlock r)]) \<and>
           fire (Runs i) (cache\<lparr>lock := True\<rparr>, callers[i := (x, At_Unlock r)]) =
             Moves (cache, callers[i := (x, Has_Returned r)]))"
    using call_runs_to_return [of cache i callers x] by blast
  from execute_lock_inv [OF lock_inv_start, of es options]
  obtain c and gs :: "('tok operation \<times> 'tok point) list"
    where ex: "execute es (start options) = Some (c, gs)" and inv: "lock_inv (c, gs)"
    by (metis surj_pair)
  have a: "lock c \<longleftrightarrow> (\<exists>i<length gs. holds_lock (snd (gs ! i)))"
    using inv by (simp add: lock_inv_def)
  have b: "i = j" if "i < length gs" "j < length gs"
      "snd (gs ! i) = In_Internal \<and> snd (gs ! j) = In_Internal" for i j
  proof -
    from that have "holds_lock (snd (gs ! i)) \<and> holds_lock (snd (gs ! j))" by simp
    with inv that show ?thesis unfolding lock_inv_def by auto
  qed
  have p: "lock c \<and> (\<forall>i<length gs. snd (gs ! i) \<noteq> In_Internal) \<and>
        (\<forall>es'. \<exists>xs. execute es' (c, gs) = Some (c, gs @ map (\<lambda>x. (x, At_Lock)) xs))"
    if "\<exists>k<length gs. snd (gs ! k) = Has_Panicked"
  proof -
    from that obtain k where k: "k < length gs" "snd (gs ! k) = Has_Panicked" by blast
    from panicked_quiet [OF inv k] have l: "lock c"
      and q: "\<forall>i<length gs. quiet (snd (gs ! i))" by blast+
    have "snd (gs ! i) \<noteq> In_Internal" if "i < length gs" for i
      using q that by (cases "snd (gs ! i)") auto
    moreover have "\<exists>xs. execute es' (c, gs) = Some (c, gs @ map (\<lambda>x. (x, At_Lock)) xs)" for es'
      by (rule execute_frozen [OF l q])
    ultimately show ?thesis using l by blast
  qed
  have a': "lock c" if "i < length gs" "snd (gs ! i) = In_Internal" for i
  proof -
    from that have "holds_lock (snd (gs ! i))" by simp
    with a that show ?thesis by blast
  qed
  have s1: "\<forall>i<length gs. snd (gs ! i) = At_Lock \<longrightarrow>
        fire (Runs i) (c, gs) =
          (if lock c then Waits
           else Moves (c\<lparr>lock := True\<rparr>, gs[i := (fst (gs ! i), In_Internal)]))"
    using reachable_progress(3) [OF inv] by blast
  have s2: "\<forall>i<length gs. snd (gs ! i) = In_Internal \<longrightarrow>
        fire (Runs i) (c, gs) =
          Moves (c, gs[i := (fst (gs ! i), At_Unlock (internal (fst (gs ! i)) c))])"
    using reachable_progress(2) [OF inv] by blast
  have s3: "\<forall>i<length gs. \<forall>r. snd (gs ! i) = At_Unlock r \<longrightarrow>
        fire (Runs i) (c, gs) =
          Moves (c\<lparr>lock := False\<rparr>, gs[i := (fst (gs ! i), Has_Returned r)])"
    using reachable_progress(1) [OF inv] by blast
  have d: "(\<forall>k<length gs. snd (gs ! k) \<noteq> Has_Panicked) \<and>
      (\<exists>i<length gs. \<forall>r. snd (gs ! i) \<noteq> Has_Returned r) \<longrightarrow>
        (\<exists>j<length gs. \<exists>s'. fire (Runs j) (c, gs) = Moves s')"
    using no_deadlock_without_panic [OF inv] by blast
  have reach: "\<exists>c gs. execute es (start options) = Some (c, gs :: ('tok operation \<times> 'tok point) list) \<and>
     (lock c \<longleftrightarrow> (\<exists>i<length gs. holds_lock (snd (gs ! i)))) \<and>
     (\<forall>i<length gs. snd (gs ! i) = In_Internal \<longrightarrow> lock c) \<and>
     (\<forall>i<length gs. \<forall>j<length gs.
        snd (gs ! i) = In_Internal \<and> snd (gs ! j) = In_Internal \<longrightarrow> i = j) \<and>
     (\<forall>i<length gs. snd (gs ! i) = At_Lock \<longrightarrow>
        fire (Runs i) (c, gs) =
          (if lock c then Waits
           else Moves (c\<lparr>lock := True\<rparr>, gs[i := (fst (gs ! i), In_Internal)]))) \<and>
     (\<forall>i<length gs. snd (gs ! i) = In_Internal \<longrightarrow>
        fire (Runs i) (c, gs) =
          Moves (c, gs[i := (fst (gs ! i), At_Unlock (internal (fst (gs ! i)) c))])) \<and>
     (\<forall>i<length gs. \<forall>r. snd (gs ! i) = At_Unlock r \<longrightarrow>
        fire (Runs i) (c, gs) =
          Moves (c\<lparr>lock := False\<rparr>, gs[i := (fst (gs ! i), Has_Returned r)])) \<and>
     ((\<forall>k<length gs. snd (gs ! k) \<noteq> Has_Panicked) \<and>
      (\<exists>i<length gs. \<forall>r. snd (gs ! i) \<noteq> Has_Returned r) \<longrightarrow>
        (\<exists>j<length gs. \<exists>s'. fire (Runs j) (c, gs) = Moves s')) \<and>
     ((\<exists>k<length gs. snd (gs ! k) = Has_Panicked) \<longrightarrow>
        lock c \<and> (\<forall>i<length gs. snd (gs ! i) \<noteq> In_Internal) \<and>
        (\<forall>es'. \<exists>xs. execute es' (c, gs) = Some (c, gs @ map (\<lambda>x. (x, At_Lock)) xs)))"
    using ex a a' b s1 s2 s3 d p by (intro exI [of _ c] exI [of _ gs] conjI impI allI) blast+
  from held free reach show ?thesis by (intro conjI)
qed

text \<open>
  A held mutex makes all four methods wait. A call of \<open>HasCachedToken\<close> alone on a new
  cache returns \<open>(false, nil)\<close> and leaves the mutex free. Two callers: while the first
  is about to unlock, the second waits; when both have returned, the mutex is free; while
  the first is inside \<open>loadTokenInternal\<close>, the mutex is held. Two callers again: the
  first panics inside \<open>hasCachedTokenInternal\<close>, the second is scheduled again and stays
  at \<open>Lock\<close>.
\<close>

theorem CredCache_fail_stop_witness:
  "(HasCachedToken \<lparr>keyName = ''user1'', lock = True, isPermSet = False\<rparr> = Blocks \<and>
    RemoveCachedToken \<lparr>keyName = ''user1'', lock = True, isPermSet = False\<rparr> = Blocks \<and>
    SaveToken ''secret'' \<lparr>keyName = ''user1'', lock = True, isPermSet = False\<rparr> = Blocks \<and>
    LoadToken \<lparr>keyName = ''user1'', lock = True, isPermSet = False\<rparr> =
      (Blocks :: ((string option \<times> error option) \<times> CredCache) exec)) \<and>
   (perform (Do_HasCachedToken :: string operation) (NewCredCache \<lparr>KeyName = ''user1''\<rparr>) =
      Returns (HasCachedToken_returned False None, NewCredCache \<lparr>KeyName = ''user1''\<rparr>) \<and>
    fire (Runs 0)
      ((NewCredCache \<lparr>KeyName = ''user1''\<rparr>)\<lparr>lock := True\<rparr>,
       [(Do_HasCachedToken :: string operation, At_Unlock (HasCachedToken_returned False None))]) =
      Moves (NewCredCache \<lparr>KeyName = ''user1''\<rparr>,
             [(Do_HasCachedToken, Has_Returned (HasCachedToken_returned False None))])) \<and>
   (\<exists>c gs. execute [Calls Do_LoadToken, Calls Do_RemoveCachedToken, Runs 0, Runs 1, Runs 0]
               (start \<lparr>KeyName = ''user1''\<rparr>) = Some (c, gs) \<and>
     gs = [(Do_LoadToken :: string operation, At_Unlock (LoadToken_returned None None)),
           (Do_RemoveCachedToken, At_Lock)] \<and>
     lock c \<and>
     fire (Runs 1) (c, gs) = Waits \<and>
     fire (Runs 0) (c, gs) =
       Moves (c\<lparr>lock := False\<rparr>,
              [(Do_LoadToken, Has_Returned (LoadToken_returned None None)),
               (Do_RemoveCachedToken, At_Lock)]) \<and>
     (\<exists>j<length gs. \<exists>s'. fire (Runs j) (c, gs) = Moves s')) \<and>
   (\<exists>c gs. execute [Calls Do_LoadToken, Calls Do_RemoveCachedToken, Runs 0, Runs 1, Runs 0,
                   Runs 0, Runs 1, Runs 1, Runs 1]
               (start \<lparr>KeyName = ''user1''\<rparr>) = Some (c, gs) \<and>
     gs = [(Do_LoadToken :: string operation, Has_Returned (LoadToken_returned None None)),
           (Do_RemoveCachedToken, Has_Returned (RemoveCachedToken_returned None))] \<and>
     \<not> lock c) \<and>
   (\<exists>c gs. execute [Calls Do_LoadToken, Calls Do_RemoveCachedToken, Runs 0, Runs 1]
               (start \<lparr>KeyName = ''user1''\<rparr>) = Some (c, gs) \<and>
     gs = [(Do_LoadToken :: string operation, In_Internal), (Do_RemoveCachedToken, At_Lock)] \<and>
     lock c \<and>
     fire (Runs 0) (c, gs) =
       Moves (c, [(Do_LoadToken, At_Unlock (LoadToken_returned None None)),
                  (Do_RemoveCachedToken, At_Lock)])) \<and>
   (\<exists>c gs. execute [Calls Do_HasCachedToken, Calls (Do_SaveToken ''secret''), Runs 0, Runs 1,
                   Panics 0, Runs 1] (start \<lparr>KeyName = ''user1''\<rparr>) = Some (c, gs) \<and>
     gs = [(Do_HasCachedToken, Has_Panicked), (Do_SaveToken ''secret'', At_Lock)] \<and>
     lock c \<and>
     (\<forall>es'. \<exists>xs. execute es' (c, gs) = Some (c, gs @ map (\<lambda>x. (x, At_Lock)) xs)))"
proof -
  let ?o = "\<lparr>KeyName = ''user1''\<rparr>"
  let ?free = "\<lparr>keyName = ''user1'', lock = False, isPermSet = False\<rparr>"
  let ?held = "\<lparr>keyName = ''user1'', lock = True, isPermSet = False\<rparr>"
  let ?L = "LoadToken_returned None None :: string returned"
  let ?R = "RemoveCachedToken_returned None :: string returned"
  let ?H = "HasCachedToken_returned False None :: string returned"
  note defs = start_def NewCredCache_def Mutex_Lock_def Mutex_Unlock_def
    hasCachedTokenInternal_def removeCachedTokenInternal_def saveTokenInternal_def
    loadTokenInternal_def
  \<comment> \<open>a held mutex\<close>
  have w1: "HasCachedToken ?held = Blocks \<and> RemoveCachedToken ?held = Blocks \<and>
      SaveToken ''secret'' ?held = Blocks \<and>
      LoadToken ?held = (Blocks :: ((string option \<times> error option) \<times> CredCache) exec)"
    using CredCache_calls_serialized_and_fail_stop [where cache = ?held and token = "''secret''", THEN conjunct1] by simp
  \<comment> \<open>a call that runs alone\<close>
  let ?g0 = "[(Do_HasCachedToken :: string operation, At_Lock)]"
  have h2: "\<not> lock (NewCredCache ?o) \<and> 0 < length ?g0 \<and> ?g0 ! 0 = (Do_HasCachedToken, At_Lock)"
    by (simp add: NewCredCache_def)
  from CredCache_calls_serialized_and_fail_stop [where cache = "NewCredCache ?o" and i = 0 and callers = ?g0
      and x = Do_HasCachedToken, THEN conjunct2, THEN conjunct1, rule_format, OF h2]
  obtain r where
      r1: "perform Do_HasCachedToken (NewCredCache ?o) = Returns (r, NewCredCache ?o)"
    and r2: "fire (Runs 0) ((NewCredCache ?o)\<lparr>lock := True\<rparr>, ?g0[0 := (Do_HasCachedToken, In_Internal)]) =
        Moves ((NewCredCache ?o)\<lparr>lock := True\<rparr>, ?g0[0 := (Do_HasCachedToken, At_Unlock r)])"
    and r3: "fire (Runs 0) ((NewCredCache ?o)\<lparr>lock := True\<rparr>, ?g0[0 := (Do_HasCachedToken, At_Unlock r)]) =
        Moves (NewCredCache ?o, ?g0[0 := (Do_HasCachedToken, Has_Returned r)])"
    by (elim exE conjE) (rule that, assumption+)
  from r2 have "r = ?H" by (simp add: hasCachedTokenInternal_def)
  with r1 r3 have w2: "perform (Do_HasCachedToken :: string operation) (NewCredCache ?o) =
      Returns (?H, NewCredCache ?o) \<and>
    fire (Runs 0) ((NewCredCache ?o)\<lparr>lock := True\<rparr>, [(Do_HasCachedToken, At_Unlock ?H)]) =
      Moves (NewCredCache ?o, [(Do_HasCachedToken, Has_Returned ?H)])"
    by simp
  \<comment> \<open>about to unlock\<close>
  let ?es3 = "[Calls Do_LoadToken, Calls Do_RemoveCachedToken, Runs 0, Runs 1, Runs 0]
                :: string event list"
  let ?gs3 = "[(Do_LoadToken, At_Unlock ?L), (Do_RemoveCachedToken, At_Lock)]"
  have run3: "execute ?es3 (start ?o) = Some (?held, ?gs3)" by (simp add: defs)
  from CredCache_calls_serialized_and_fail_stop [where es = ?es3 and options = ?o, THEN conjunct2, THEN conjunct2]
  obtain c3 gs3 where e3: "execute ?es3 (start ?o) = Some (c3, gs3)"
    and l3: "lock c3 \<longleftrightarrow> (\<exists>i<length gs3. holds_lock (snd (gs3 ! i)))"
    and s3a: "\<forall>i<length gs3. snd (gs3 ! i) = At_Lock \<longrightarrow>
        fire (Runs i) (c3, gs3) =
          (if lock c3 then Waits
           else Moves (c3\<lparr>lock := True\<rparr>, gs3[i := (fst (gs3 ! i), In_Internal)]))"
    and s3c: "\<forall>i<length gs3. \<forall>r. snd (gs3 ! i) = At_Unlock r \<longrightarrow>
        fire (Runs i) (c3, gs3) =
          Moves (c3\<lparr>lock := False\<rparr>, gs3[i := (fst (gs3 ! i), Has_Returned r)])"
    and d3: "(\<forall>k<length gs3. snd (gs3 ! k) \<noteq> Has_Panicked) \<and>
      (\<exists>i<length gs3. \<forall>r. snd (gs3 ! i) \<noteq> Has_Returned r) \<longrightarrow>
        (\<exists>j<length gs3. \<exists>s'. fire (Runs j) (c3, gs3) = Moves s')"
    by (elim exE conjE) (rule that, assumption+)
  from e3 run3 have g3: "gs3 = ?gs3" by simp
  have "\<exists>i<length ?gs3. holds_lock (snd (?gs3 ! i))" by (rule exI [of _ 0]) simp
  with l3 g3 have k3: "lock c3" by simp
  have "1 < length ?gs3 \<and> snd (?gs3 ! 1) = At_Lock" by simp
  with s3a [rule_format, of 1] g3 k3 have wait3: "fire (Runs 1) (c3, gs3) = Waits" by simp
  have "0 < length ?gs3 \<and> snd (?gs3 ! 0) = At_Unlock ?L" by simp
  with s3c [rule_format, of 0 ?L] g3 have "fire (Runs 0) (c3, gs3) =
      Moves (c3\<lparr>lock := False\<rparr>, gs3[0 := (fst (gs3 ! 0), Has_Returned ?L)])"
    by simp
  with g3 have unl3: "fire (Runs 0) (c3, gs3) =
      Moves (c3\<lparr>lock := False\<rparr>, [(Do_LoadToken, Has_Returned ?L), (Do_RemoveCachedToken, At_Lock)])"
    by simp
  have "\<forall>k<length ?gs3. snd (?gs3 ! k) \<noteq> Has_Panicked"
    by (simp add: less_Suc_eq nth_Cons')
  moreover have "\<exists>i<length ?gs3. \<forall>r. snd (?gs3 ! i) \<noteq> Has_Returned r"
    by (rule exI [of _ 0]) simp
  ultimately have dl3: "\<exists>j<length gs3. \<exists>s'. fire (Runs j) (c3, gs3) = Moves s'"
    using d3 g3 by blast
  from e3 g3 k3 wait3 unl3 dl3
  have w3: "\<exists>c gs. execute ?es3 (start ?o) = Some (c, gs) \<and> gs = ?gs3 \<and> lock c \<and>
     fire (Runs 1) (c, gs) = Waits \<and>
     fire (Runs 0) (c, gs) =
       Moves (c\<lparr>lock := False\<rparr>,
              [(Do_LoadToken, Has_Returned ?L), (Do_RemoveCachedToken, At_Lock)]) \<and>
     (\<exists>j<length gs. \<exists>s'. fire (Runs j) (c, gs) = Moves s')"
    by blast
  \<comment> \<open>both calls returned\<close>
  let ?es4 = "[Calls Do_LoadToken, Calls Do_RemoveCachedToken, Runs 0, Runs 1, Runs 0,
               Runs 0, Runs 1, Runs 1, Runs 1] :: string event list"
  let ?gs4 = "[(Do_LoadToken, Has_Returned ?L), (Do_RemoveCachedToken, Has_Returned ?R)]"
  have run4: "execute ?es4 (start ?o) = Some (?free, ?gs4)" by (simp add: defs)
  from CredCache_calls_serialized_and_fail_stop [where es = ?es4 and options = ?o, THEN conjunct2, THEN conjunct2]
  obtain c4 gs4 where e4: "execute ?es4 (start ?o) = Some (c4, gs4)"
    and l4: "lock c4 \<longleftrightarrow> (\<exists>i<length gs4. holds_lock (snd (gs4 ! i)))"
    by (elim exE conjE) (rule that, assumption+)
  from e4 run4 have g4: "gs4 = ?gs4" by simp
  have "\<not> (\<exists>i<length ?gs4. holds_lock (snd (?gs4 ! i)))"
    by (simp add: less_Suc_eq nth_Cons')
  with l4 g4 have "\<not> lock c4" by simp
  with e4 g4 have w4: "\<exists>c gs. execute ?es4 (start ?o) = Some (c, gs) \<and> gs = ?gs4 \<and> \<not> lock c"
    by blast
  \<comment> \<open>inside the internal method\<close>
  let ?es5 = "[Calls Do_LoadToken, Calls Do_RemoveCachedToken, Runs 0, Runs 1]
                :: string event list"
  let ?gs5 = "[(Do_LoadToken :: string operation, In_Internal), (Do_RemoveCachedToken, At_Lock)]"
  have run5: "execute ?es5 (start ?o) = Some (?held, ?gs5)" by (simp add: defs)
  from CredCache_calls_serialized_and_fail_stop [where es = ?es5 and options = ?o, THEN conjunct2, THEN conjunct2]
  obtain c5 gs5 where e5: "execute ?es5 (start ?o) = Some (c5, gs5)"
    and l5: "\<forall>i<length gs5. snd (gs5 ! i) = In_Internal \<longrightarrow> lock c5"
    and s5: "\<forall>i<length gs5. snd (gs5 ! i) = In_Internal \<longrightarrow>
        fire (Runs i) (c5, gs5) =
          Moves (c5, gs5[i := (fst (gs5 ! i), At_Unlock (internal (fst (gs5 ! i)) c5))])"
    by (elim exE conjE) (rule that, assumption+)
  from e5 run5 have g5: "gs5 = ?gs5" by simp
  have i5: "0 < length ?gs5 \<and> snd (?gs5 ! 0) = In_Internal" by simp
  with l5 [rule_format, of 0] g5 have k5: "lock c5" by simp
  from s5 [rule_format, of 0] g5 i5 have "fire (Runs 0) (c5, gs5) =
          Moves (c5, gs5[0 := (fst (gs5 ! 0), At_Unlock (internal (fst (gs5 ! 0)) c5))])"
    by simp
  with g5 have m5: "fire (Runs 0) (c5, gs5) =
       Moves (c5, [(Do_LoadToken, At_Unlock ?L), (Do_RemoveCachedToken, At_Lock)])"
    by (simp add: loadTokenInternal_def)
  from e5 g5 k5 m5
  have w5: "\<exists>c gs. execute ?es5 (start ?o) = Some (c, gs) \<and> gs = ?gs5 \<and> lock c \<and>
     fire (Runs 0) (c, gs) =
       Moves (c, [(Do_LoadToken, At_Unlock ?L), (Do_RemoveCachedToken, At_Lock)])"
    by blast
  \<comment> \<open>after a panic\<close>
  let ?es6 = "[Calls Do_HasCachedToken, Calls (Do_SaveToken ''secret''), Runs 0, Runs 1,
              Panics 0, Runs 1]"
  let ?gs6 = "[(Do_HasCachedToken, Has_Panicked), (Do_SaveToken ''secret'', At_Lock)]"
  have run6: "execute ?es6 (start ?o) = Some (?held, ?gs6)" by (simp add: defs)
  have k6: "\<exists>k<length ?gs6. snd (?gs6 ! k) = Has_Panicked"
    by (rule exI [of _ 0]) simp
  from CredCache_calls_serialized_and_fail_stop [where es = ?es6 and options = ?o, THEN conjunct2, THEN conjunct2]
  obtain c6 gs6 where e6: "execute ?es6 (start ?o) = Some (c6, gs6)"
    and p6: "(\<exists>k<length gs6. snd (gs6 ! k) = Has_Panicked) \<longrightarrow>
        lock c6 \<and> (\<forall>i<length gs6. snd (gs6 ! i) \<noteq> In_Internal) \<and>
        (\<forall>es'. \<exists>xs. execute es' (c6, gs6) = Some (c6, gs6 @ map (\<lambda>x. (x, At_Lock)) xs))"
    by (elim exE conjE) (rule that, assumption+)
  from e6 run6 have g6: "gs6 = ?gs6" by simp
  with p6 k6 have "lock c6 \<and>
      (\<forall>es'. \<exists>xs. execute es' (c6, gs6) = Some (c6, gs6 @ map (\<lambda>x. (x, At_Lock)) xs))"
    by blast
  with e6 g6 have w6: "\<exists>c gs. execute ?es6 (start ?o) = Some (c, gs) \<and> gs = ?gs6 \<and> lock c \<and>
     (\<forall>es'. \<exists>xs. execute es' (c, gs) = Some (c, gs @ map (\<lambda>x. (x, At_Lock)) xs))"
    by blast
  show ?thesis
    by (rule conjI [OF w1 conjI [OF w2 conjI [OF w3 conjI [OF w4 conjI [OF w5 w6]]]]])
qed

end
